theory Spec2Isabelle
  imports Complex_Main "HOL-Library.Word"
begin

unbundle bit_operations_syntax

section \<open>Strings and paths\<close>

text \<open>
  The two scripts build file names and URLs with \<^verbatim>\<open>os.path.join\<close>, \<^verbatim>\<open>os.path.splitext\<close>,
  \<^verbatim>\<open>os.path.basename\<close> and \<^verbatim>\<open>time.strftime\<close>. The path functions below follow CPython's
  \<^verbatim>\<open>posixpath\<close> module (separator \<open>/\<close>, extension separator \<open>.\<close>), line by line.
\<close>

type_synonym path = string

text \<open>\<^verbatim>\<open>str.rfind\<close> for a one-character needle: the last index of \<open>c\<close>, or \<open>-1\<close>.\<close>

fun rfind_from :: "char \<Rightarrow> string \<Rightarrow> int \<Rightarrow> int \<Rightarrow> int" where
  "rfind_from c [] i found = found"
| "rfind_from c (x # xs) i found = rfind_from c xs (i + 1) (if x = c then i else found)"

definition rfind :: "string \<Rightarrow> char \<Rightarrow> int" where
  "rfind p c = rfind_from c p 0 (- 1)"

text \<open>\<^verbatim>\<open>posixpath.basename\<close>: \<^verbatim>\<open>i = p.rfind('/') + 1; return p[i:]\<close>.\<close>

definition basename :: "path \<Rightarrow> string" where
  "basename p = (let i = rfind p CHR ''/'' + 1 in drop (nat i) p)"

text \<open>
  \<^verbatim>\<open>genericpath._splitext\<close>: the inner \<^verbatim>\<open>while filenameIndex < dotIndex\<close> loop skips the
  leading dots of the last component and splits at the last dot as soon as it meets another
  character.
\<close>

function splitext_scan :: "string \<Rightarrow> nat \<Rightarrow> nat \<Rightarrow> string \<times> string" where
  "splitext_scan p filenameIndex dotIndex =
     (if filenameIndex < dotIndex then
        (if p ! filenameIndex \<noteq> CHR ''.'' then (take dotIndex p, drop dotIndex p)
         else splitext_scan p (filenameIndex + 1) dotIndex)
      else (p, []))"
  by pat_completeness auto
termination
  by (relation "measure (\<lambda>(p, f, d). d - f)") auto

declare splitext_scan.simps [simp del]

definition splitext :: "path \<Rightarrow> string \<times> string" where
  "splitext p =
     (let sepIndex = rfind p CHR ''/'';
          dotIndex = rfind p CHR ''.''
      in if dotIndex > sepIndex then splitext_scan p (nat (sepIndex + 1)) (nat dotIndex)
         else (p, []))"

text \<open>
  \<^verbatim>\<open>posixpath.join\<close> with one component: an absolute \<open>b\<close> replaces \<open>a\<close>; an empty \<open>a\<close> or one
  ending in the separator is concatenated; otherwise the separator is inserted.
\<close>

definition path_join :: "path \<Rightarrow> string \<Rightarrow> path" where
  "path_join a b =
     (if b \<noteq> [] \<and> hd b = CHR ''/'' then b
      else if a = [] \<or> last a = CHR ''/'' then a @ b
      else a @ ''/'' @ b)"

text \<open>
  \<^verbatim>\<open>time.strftime("%Y-%m-%d_%H-%M-%S")\<close> formats the broken-down local time, whose finest
  field is the second. \<open>%Y\<close> is the year in decimal, the other fields are two digits, zero
  padded.
\<close>

record tm =
  tm_year :: nat
  tm_mon :: nat
  tm_mday :: nat
  tm_hour :: nat
  tm_min :: nat
  tm_sec :: nat

definition digit :: "nat \<Rightarrow> char" where
  "digit d = ''0123456789'' ! d"

fun show_nat :: "nat \<Rightarrow> string" where
  "show_nat n = (if n < 10 then [digit n] else show_nat (n div 10) @ [digit (n mod 10)])"

declare show_nat.simps [simp del]

definition pad2 :: "nat \<Rightarrow> string" where
  "pad2 n = (if n < 10 then ''0'' @ show_nat n else show_nat n)"

definition strftime :: "tm \<Rightarrow> string" where
  "strftime t =
     show_nat (tm_year t) @ ''-'' @ pad2 (tm_mon t) @ ''-'' @ pad2 (tm_mday t) @ ''_'' @
     pad2 (tm_hour t) @ ''-'' @ pad2 (tm_min t) @ ''-'' @ pad2 (tm_sec t)"

text \<open>The fields of a \<^verbatim>\<open>struct_time\<close> that \<^verbatim>\<open>time.localtime()\<close> can return, with a four-digit year.\<close>

definition valid_tm :: "tm \<Rightarrow> bool" where
  "valid_tm t \<longleftrightarrow>
     1000 \<le> tm_year t \<and> tm_year t \<le> 9999 \<and> 1 \<le> tm_mon t \<and> tm_mon t \<le> 12 \<and>
     1 \<le> tm_mday t \<and> tm_mday t \<le> 31 \<and> tm_hour t \<le> 23 \<and> tm_min t \<le> 59 \<and> tm_sec t \<le> 61"

section \<open>The recorder object\<close>

text \<open>
  The fields of \<^verbatim>\<open>VideoRecorder\<close> that its methods read. Python numbers (the segment duration
  in seconds, the frame rate) are rationals; the camera handle and the codec tag are handles
  of the OpenCV library and carry no data of their own.
\<close>

record VideoRecorder =
  output_directory :: path
  folder_id :: string
  access_token :: string
  segment_duration :: rat
  fps :: rat

text \<open>\<^verbatim>\<open>generate_filename\<close>, given the local time that \<^verbatim>\<open>time.strftime\<close> reads.\<close>

definition generate_filename :: "VideoRecorder \<Rightarrow> tm \<Rightarrow> path" where
  "generate_filename self now =
     (let timestamp = strftime now
      in path_join (output_directory self) (''video_'' @ timestamp @ ''.mp4''))"

text \<open>The first two lines of \<^verbatim>\<open>compress_video\<close>: the name of the compressed file.\<close>

definition compressed_name :: "path \<Rightarrow> path" where
  "compressed_name input_file =
     (let (base_name, ext) = splitext input_file
      in base_name @ ''_compressed'' @ ext)"

text \<open>\<^verbatim>\<open>get_upload_url\<close> and \<^verbatim>\<open>get_headers\<close>.\<close>

definition get_upload_url :: "VideoRecorder \<Rightarrow> path \<Rightarrow> string" where
  "get_upload_url self video_filename =
     ''https://graph.microsoft.com/v1.0/me/drive/items/'' @ folder_id self @ '':/'' @
     basename video_filename @ '':/content''"

definition get_headers :: "VideoRecorder \<Rightarrow> (string \<times> string) list" where
  "get_headers self =
     [(''Authorization'', ''Bearer '' @ access_token self), (''Content-Type'', ''video/mp4'')]"

text \<open>The URL and headers that \<^verbatim>\<open>upload_to_onedrive\<close> of the one-shot script builds.\<close>

definition onedrive_upload_url :: "path \<Rightarrow> string \<Rightarrow> string" where
  "onedrive_upload_url file_path fid =
     (let file_name = basename file_path
      in ''https://graph.microsoft.com/v1.0/me/drive/items/'' @ fid @ '':/'' @ file_name @
         '':/content'')"

definition onedrive_headers :: "string \<Rightarrow> (string \<times> string) list" where
  "onedrive_headers token =
     [(''Authorization'', ''Bearer '' @ token), (''Content-Type'', ''application/octet-stream'')]"

section \<open>The world outside the program\<close>

text \<open>
  Everything the scripts do beyond computing strings is an effect on the outside world: the
  file system, the camera and the display, the clock, child processes, HTTP and threads. The
  model keeps the set of existing files and the list of the calls made so far, oldest first.
  What the outside world answers is an input: an oracle for the calls of the capture loop
  (the \<open>n\<close>-th call gets the \<open>n\<close>-th answer), a parameter for the one child process and
  the one HTTP request of a background task.
\<close>

type_synonym frame = nat

text \<open>The exceptions the library calls of the scripts raise; each is a subclass of
  \<^verbatim>\<open>Exception\<close>.\<close>

datatype py_exn =
    CalledProcessError int
  | OSError string
  | RequestException string
  | JSONDecodeError string
  | ZeroDivisionError

text \<open>The two closures handed to \<^verbatim>\<open>threading.Thread\<close>, with the path each has captured.\<close>

datatype task = Process path | Upload path

text \<open>One constructor for each \<^verbatim>\<open>print\<close> call of the two scripts, with the values it
  interpolates.\<close>

datatype message =
    Continuous_recording_started path
  | Recording path
  | Failed_to_capture_frame
  | Stopping_recording_manually
  | Video_saved path
  | Processing_in_background
  | Compressed_video_saved path
  | Error_compressing_video py_exn
  | Successfully_uploaded path
  | Upload_error int
  | Response_json string
  | Error_during_upload py_exn
  | Uploading_to_OneDrive string
  | Upload_successful
  | Upload_failed string
  | Upload_Error py_exn

datatype event =
    Print message
  | VideoWriter_open path rat
  | Writer_write path frame
  | Writer_release path
  | Imshow frame
  | Sleep rat
  | Cap_release
  | DestroyAllWindows
  | Subprocess_run "string list"
  | Os_remove path
  | Requests_put string "(string \<times> string) list" path
  | Thread_start task

record world =
  files :: "path set"
  trace :: "event list"
  clock_calls :: nat
  time_calls :: nat
  read_calls :: nat
  key_calls :: nat

text \<open>
  The oracle of the capture loop: the readings of \<^verbatim>\<open>time.monotonic()\<close> (Python floats, taken
  here as exact rationals, with no order assumed between readings), the local time that
  \<^verbatim>\<open>time.strftime\<close> sees, the results \<^verbatim>\<open>(ret, frame)\<close> of \<^verbatim>\<open>cap.read()\<close>, and the key codes
  returned by \<^verbatim>\<open>cv2.waitKey(1)\<close> (\<open>-1\<close> when no key is pressed).
\<close>

record env =
  monotonic :: "nat \<Rightarrow> rat"
  localtime :: "nat \<Rightarrow> tm"
  cap_read :: "nat \<Rightarrow> bool \<times> frame"
  waitKey :: "nat \<Rightarrow> int"

definition emit :: "event \<Rightarrow> world \<Rightarrow> world" where
  "emit e w = w\<lparr>trace := trace w @ [e]\<rparr>"

definition time_monotonic :: "env \<Rightarrow> world \<Rightarrow> rat \<times> world" where
  "time_monotonic env w = (monotonic env (clock_calls w), w\<lparr>clock_calls := Suc (clock_calls w)\<rparr>)"

definition time_localtime :: "env \<Rightarrow> world \<Rightarrow> tm \<times> world" where
  "time_localtime env w = (localtime env (time_calls w), w\<lparr>time_calls := Suc (time_calls w)\<rparr>)"

definition read_frame :: "env \<Rightarrow> world \<Rightarrow> (bool \<times> frame) \<times> world" where
  "read_frame env w = (cap_read env (read_calls w), w\<lparr>read_calls := Suc (read_calls w)\<rparr>)"

definition wait_key :: "env \<Rightarrow> world \<Rightarrow> int \<times> world" where
  "wait_key env w = (waitKey env (key_calls w), w\<lparr>key_calls := Suc (key_calls w)\<rparr>)"

text \<open>\<^verbatim>\<open>cv2.VideoWriter(filename, fourcc, fps, frame_size)\<close> creates the file it writes to.\<close>

definition open_writer :: "path \<Rightarrow> rat \<Rightarrow> world \<Rightarrow> world" where
  "open_writer filename rate w =
     emit (VideoWriter_open filename rate) (w\<lparr>files := insert filename (files w)\<rparr>)"

text \<open>
  \<^verbatim>\<open>subprocess.run(command, check=True)\<close>. The child either cannot be launched (no such
  program: \<^verbatim>\<open>OSError\<close>) or exits with a status; \<^verbatim>\<open>check=True\<close> raises
  \<^verbatim>\<open>CalledProcessError\<close> for every status but 0. A run that exits with 0 has written its
  output file; a failed run may have left one behind (the flag).
\<close>

datatype proc_outcome = Exited int bool | Not_launched string

definition subprocess_run :: "proc_outcome \<Rightarrow> string list \<Rightarrow> path \<Rightarrow> world \<Rightarrow> (py_exn + unit) \<times> world" where
  "subprocess_run oc command output_file w =
     (let w1 = emit (Subprocess_run command) w
      in case oc of
           Not_launched m \<Rightarrow> (Inl (OSError m), w1)
         | Exited rc wrote \<Rightarrow>
             (let w2 = (if rc = 0 \<or> wrote then w1\<lparr>files := insert output_file (files w1)\<rparr> else w1)
              in if rc = 0 then (Inr (), w2) else (Inl (CalledProcessError rc), w2)))"

text \<open>\<^verbatim>\<open>os.remove\<close> raises \<^verbatim>\<open>FileNotFoundError\<close> (an \<^verbatim>\<open>OSError\<close>) for a file that is not there.\<close>

definition os_remove :: "path \<Rightarrow> world \<Rightarrow> (py_exn + unit) \<times> world" where
  "os_remove p w =
     (let w1 = emit (Os_remove p) w
      in if p \<in> files w then (Inr (), w1\<lparr>files := files w1 - {p}\<rparr>)
         else (Inl (OSError ''No such file or directory''), w1))"

section \<open>Compression and upload\<close>

text \<open>The \<^verbatim>\<open>try\<close> block of \<^verbatim>\<open>compress_video\<close>.\<close>

definition compress_try :: "proc_outcome \<Rightarrow> path \<Rightarrow> path \<Rightarrow> string list \<Rightarrow> world \<Rightarrow> (py_exn + path) \<times> world" where
  "compress_try oc input_file compressed_file command w =
     (case subprocess_run oc command compressed_file w of
        (Inl e, w1) \<Rightarrow> (Inl e, w1)
      | (Inr _, w1) \<Rightarrow>
          (case os_remove input_file w1 of
             (Inl e, w2) \<Rightarrow> (Inl e, w2)
           | (Inr _, w2) \<Rightarrow>
               (Inr compressed_file, emit (Print (Compressed_video_saved compressed_file)) w2)))"

text \<open>The argument list \<^verbatim>\<open>command\<close> of \<^verbatim>\<open>compress_video\<close>.\<close>

definition ffmpeg_command :: "path \<Rightarrow> path \<Rightarrow> string list" where
  "ffmpeg_command input_file compressed_file =
     [''ffmpeg'', ''-i'', input_file,
      ''-vcodec'', ''libx264'', ''-crf'', ''28'', ''-preset'', ''fast'',
      compressed_file, ''-y'']"

text \<open>\<^verbatim>\<open>compress_video\<close>: the handler is \<^verbatim>\<open>except subprocess.CalledProcessError\<close>, so any
  other exception of the block leaves the method.\<close>

definition compress_video :: "proc_outcome \<Rightarrow> path \<Rightarrow> world \<Rightarrow> (py_exn + path) \<times> world" where
  "compress_video oc input_file w =
     (let compressed_file = compressed_name input_file;
          command = ffmpeg_command input_file compressed_file
      in case compress_try oc input_file compressed_file command w of
           (Inl (CalledProcessError rc), w1) \<Rightarrow>
             (Inr input_file, emit (Print (Error_compressing_video (CalledProcessError rc))) w1)
         | (Inl e, w1) \<Rightarrow> (Inl e, w1)
         | (Inr p, w1) \<Rightarrow> (Inr p, w1))"

text \<open>
  What \<^verbatim>\<open>requests.put\<close> does once the file is open: it raises, or returns a response with a
  status code and a body (\<open>None\<close>: the body is not JSON, so \<^verbatim>\<open>response.json()\<close> raises).
\<close>

datatype put_outcome = Put_raised string | Response int "string option"

text \<open>The \<^verbatim>\<open>try\<close> block of the closure \<^verbatim>\<open>upload\<close> inside \<^verbatim>\<open>upload_video\<close>. \<^verbatim>\<open>open\<close> raises
  for a file that is not there.\<close>

definition upload_try :: "put_outcome \<Rightarrow> string \<Rightarrow> (string \<times> string) list \<Rightarrow> path \<Rightarrow> world \<Rightarrow> (py_exn + unit) \<times> world" where
  "upload_try oc upload_url headers video_filename w =
     (if video_filename \<notin> files w then (Inl (OSError ''No such file or directory''), w)
      else
        (let w1 = emit (Requests_put upload_url headers video_filename) w
         in case oc of
              Put_raised m \<Rightarrow> (Inl (RequestException m), w1)
            | Response status_code body \<Rightarrow>
                if status_code = 201 then
                  (Inr (), emit (Print (Successfully_uploaded video_filename)) w1)
                else
                  (let w2 = emit (Print (Upload_error status_code)) w1
                   in case body of
                        None \<Rightarrow> (Inl (JSONDecodeError ''Expecting value''), w2)
                      | Some j \<Rightarrow> (Inr (), emit (Print (Response_json j)) w2))))"

text \<open>The closure \<^verbatim>\<open>upload\<close>, the body of the thread that \<^verbatim>\<open>upload_video\<close> starts; its handler
  is \<^verbatim>\<open>except Exception\<close>.\<close>

definition upload :: "VideoRecorder \<Rightarrow> put_outcome \<Rightarrow> path \<Rightarrow> world \<Rightarrow> (py_exn + unit) \<times> world" where
  "upload self oc video_filename w =
     (let upload_url = get_upload_url self video_filename;
          headers = get_headers self
      in case upload_try oc upload_url headers video_filename w of
           (Inl e, w1) \<Rightarrow> (Inr (), emit (Print (Error_during_upload e)) w1)
         | (Inr u, w1) \<Rightarrow> (Inr u, w1))"

text \<open>\<^verbatim>\<open>upload_video\<close> only starts a daemon thread running \<^verbatim>\<open>upload\<close>, and returns nothing.\<close>

definition upload_video :: "VideoRecorder \<Rightarrow> path \<Rightarrow> world \<Rightarrow> world" where
  "upload_video self video_filename w = emit (Thread_start (Upload video_filename)) w"

text \<open>The closure \<^verbatim>\<open>process\<close>, the body of the thread that \<^verbatim>\<open>process_video\<close> starts. An
  exception that leaves \<^verbatim>\<open>compress_video\<close> ends the thread.\<close>

definition process :: "VideoRecorder \<Rightarrow> proc_outcome \<Rightarrow> path \<Rightarrow> world \<Rightarrow> (py_exn + unit) \<times> world" where
  "process self oc video_filename w =
     (case compress_video oc video_filename w of
        (Inl e, w1) \<Rightarrow> (Inl e, w1)
      | (Inr compressed_filename, w1) \<Rightarrow> (Inr (), upload_video self compressed_filename w1))"

text \<open>\<^verbatim>\<open>process_video\<close> only starts a daemon thread running \<^verbatim>\<open>process\<close>, and returns nothing.\<close>

definition process_video :: "VideoRecorder \<Rightarrow> path \<Rightarrow> world \<Rightarrow> world" where
  "process_video self video_filename w = emit (Thread_start (Process video_filename)) w"

text \<open>\<^verbatim>\<open>upload_to_onedrive\<close> of the one-shot script: its \<^verbatim>\<open>try\<close> block, then the function with
  its \<^verbatim>\<open>except Exception\<close> handler.\<close>

definition onedrive_try :: "put_outcome \<Rightarrow> string \<Rightarrow> string \<Rightarrow> (string \<times> string) list \<Rightarrow> path \<Rightarrow> world \<Rightarrow> (py_exn + unit) \<times> world" where
  "onedrive_try oc file_name upload_url headers file_path w =
     (let w0 = emit (Print (Uploading_to_OneDrive file_name)) w
      in if file_path \<notin> files w0 then (Inl (OSError ''No such file or directory''), w0)
         else
           (let w1 = emit (Requests_put upload_url headers file_path) w0
            in case oc of
                 Put_raised m \<Rightarrow> (Inl (RequestException m), w1)
               | Response status_code body \<Rightarrow>
                   if status_code \<in> set [200, 201] then (Inr (), emit (Print Upload_successful) w1)
                   else
                     (case body of
                        None \<Rightarrow> (Inl (JSONDecodeError ''Expecting value''), w1)
                      | Some j \<Rightarrow> (Inr (), emit (Print (Upload_failed j)) w1))))"

definition upload_to_onedrive :: "put_outcome \<Rightarrow> path \<Rightarrow> string \<Rightarrow> string \<Rightarrow> world \<Rightarrow> (py_exn + unit) \<times> world" where
  "upload_to_onedrive oc file_path token fid w =
     (let file_name = basename file_path;
          upload_url = onedrive_upload_url file_path fid;
          headers = onedrive_headers token
      in case onedrive_try oc file_name upload_url headers file_path w of
           (Inl e, w1) \<Rightarrow> (Inr (), emit (Print (Upload_Error e)) w1)
         | (Inr u, w1) \<Rightarrow> (Inr u, w1))"

section \<open>The capture loop\<close>

text \<open>How the frame loop of a segment ends: its condition fails (the segment duration has
  elapsed), \<^verbatim>\<open>break\<close>, or \<^verbatim>\<open>return\<close>.\<close>

datatype loop_exit = Elapsed | Broke | Stopped

definition close_camera :: "world \<Rightarrow> world" where
  "close_camera w = emit DestroyAllWindows (emit Cap_release w)"

text \<open>
  One pass through the body of \<^verbatim>\<open>while time.monotonic() < end_time\<close>; \<open>None\<close> means the
  body ran to its end and the condition is tested again. The key test is
  \<^verbatim>\<open>cv2.waitKey(1) & 0xFF == ord('q')\<close>, and \<^verbatim>\<open>ord('q')\<close> is 113.
\<close>

definition frame_body :: "env \<Rightarrow> path \<Rightarrow> rat \<Rightarrow> world \<Rightarrow> loop_exit option \<times> world" where
  "frame_body env out frame_interval w =
     (let (frame_start, w1) = time_monotonic env w;
          ((ret, frame), w2) = read_frame env w1
      in if \<not> ret then (Some Broke, emit (Print Failed_to_capture_frame) w2)
         else
           (let w3 = emit (Imshow frame) (emit (Writer_write out frame) w2);
                (now, w4) = time_monotonic env w3;
                elapsed = now - frame_start;
                remaining_time = frame_interval - elapsed;
                w5 = (if remaining_time > 0 then emit (Sleep remaining_time) w4 else w4);
                (key, w6) = wait_key env w5
            in if key AND 255 = 113 then
                 (Some Stopped,
                  close_camera (emit (Writer_release out) (emit (Print Stopping_recording_manually) w6)))
               else (None, w6)))"

text \<open>The frame loop. It need not end (a clock that stands still and a key that is never
  pressed), so it is a partial function: \<open>None\<close> is a loop that runs forever.\<close>

partial_function (option) frame_loop :: "env \<Rightarrow> path \<Rightarrow> rat \<Rightarrow> rat \<Rightarrow> world \<Rightarrow> (loop_exit \<times> world) option" where
  "frame_loop env out end_time frame_interval w =
     (let (now, w1) = time_monotonic env w
      in if now < end_time then
           (case frame_body env out frame_interval w1 of
              (None, w2) \<Rightarrow> frame_loop env out end_time frame_interval w2
            | (Some ex, w2) \<Rightarrow> Some (ex, w2))
         else Some (Elapsed, w1))"

text \<open>What one pass of \<^verbatim>\<open>while True\<close> does next: go round again, or leave
  \<^verbatim>\<open>record_continuous\<close>.\<close>

datatype segment_end = Next_segment | Returned

text \<open>
  The rest of a pass once the frame loop has ended: the \<^verbatim>\<open>finally\<close> clause runs on every
  exit, the \<^verbatim>\<open>return\<close> then leaves the method, and every other exit goes on to
  \<^verbatim>\<open>process_video\<close>.
\<close>

definition after_frames :: "VideoRecorder \<Rightarrow> path \<Rightarrow> loop_exit \<Rightarrow> world \<Rightarrow> segment_end \<times> world" where
  "after_frames self video_filename ex w =
     (let w1 = emit (Print (Video_saved video_filename)) (emit (Writer_release video_filename) w)
      in if ex = Stopped then (Returned, w1)
         else (Next_segment,
               emit (Print Processing_in_background) (process_video self video_filename w1)))"

text \<open>The head of one pass of \<^verbatim>\<open>while True\<close>, up to \<^verbatim>\<open>end_time\<close>: the new file name, the
  writer, the end of the segment on the monotonic clock.\<close>

definition segment_start :: "VideoRecorder \<Rightarrow> env \<Rightarrow> world \<Rightarrow> path \<times> rat \<times> world" where
  "segment_start self env w =
     (let (now, w1) = time_localtime env w;
          video_filename = generate_filename self now;
          w2 = emit (Print (Recording video_filename)) (open_writer video_filename (fps self) w1);
          (start_time, w3) = time_monotonic env w2;
          end_time = start_time + segment_duration self
      in (video_filename, end_time, w3))"

text \<open>One pass of \<^verbatim>\<open>while True\<close>. \<^verbatim>\<open>1 / self.fps\<close> raises for a frame rate of zero.\<close>

definition record_segment :: "VideoRecorder \<Rightarrow> env \<Rightarrow> world \<Rightarrow> ((py_exn + segment_end) \<times> world) option" where
  "record_segment self env w =
     (case segment_start self env w of
        (video_filename, end_time, w3) \<Rightarrow>
          if fps self = 0 then Some (Inl ZeroDivisionError, w3)
          else
            (let frame_interval = 1 / fps self
             in case frame_loop env video_filename end_time frame_interval w3 of
                  None \<Rightarrow> None
                | Some (ex, w4) \<Rightarrow>
                    (case after_frames self video_filename ex w4 of
                       (nxt, w5) \<Rightarrow> Some (Inr nxt, w5))))"

partial_function (option) segments_loop :: "VideoRecorder \<Rightarrow> env \<Rightarrow> world \<Rightarrow> ((py_exn + unit) \<times> world) option" where
  "segments_loop self env w =
     (case record_segment self env w of
        None \<Rightarrow> None
      | Some (Inl e, w1) \<Rightarrow> Some (Inl e, w1)
      | Some (Inr Returned, w1) \<Rightarrow> Some (Inr (), w1)
      | Some (Inr Next_segment, w1) \<Rightarrow> segments_loop self env w1)"

definition record_continuous :: "VideoRecorder \<Rightarrow> env \<Rightarrow> world \<Rightarrow> ((py_exn + unit) \<times> world) option" where
  "record_continuous self env w =
     segments_loop self env (emit (Print (Continuous_recording_started (output_directory self))) w)"

section \<open>Observations on runs\<close>

text \<open>The events added between two states of the world, and what is read off a list of
  events: the threads started, the durations slept, the URLs of the HTTP requests.\<close>

definition events_since :: "world \<Rightarrow> world \<Rightarrow> event list" where
  "events_since w w' = drop (length (trace w)) (trace w')"

fun tasks_started :: "event list \<Rightarrow> task list" where
  "tasks_started [] = []"
| "tasks_started (Thread_start t # es) = t # tasks_started es"
| "tasks_started (e # es) = tasks_started es"

fun sleeps :: "event list \<Rightarrow> rat list" where
  "sleeps [] = []"
| "sleeps (Sleep d # es) = d # sleeps es"
| "sleeps (e # es) = sleeps es"

fun frames_written :: "event list \<Rightarrow> frame list" where
  "frames_written [] = []"
| "frames_written (Writer_write p f # es) = f # frames_written es"
| "frames_written (e # es) = frames_written es"

fun put_urls :: "event list \<Rightarrow> string list" where
  "put_urls [] = []"
| "put_urls (Requests_put u h f # es) = u # put_urls es"
| "put_urls (e # es) = put_urls es"

text \<open>The status code of the response, when there is one.\<close>

fun response_status :: "put_outcome \<Rightarrow> int option" where
  "response_status (Put_raised m) = None"
| "response_status (Response status_code body) = Some status_code"

text \<open>The messages with which the two upload routines report a failure.\<close>

fun failure_report :: "event \<Rightarrow> bool" where
  "failure_report (Print (Upload_error c)) = True"
| "failure_report (Print (Error_during_upload e)) = True"
| "failure_report (Print (Upload_failed j)) = True"
| "failure_report (Print (Upload_Error e)) = True"
| "failure_report e = False"

text \<open>
  \<open>k\<close> full passes of the frame loop from a state at its condition: each time the
  condition holds and the body runs to its end. The result is the state at the next test of
  the condition, or \<open>None\<close> when the loop has ended before.
\<close>

fun frames_pass :: "nat \<Rightarrow> env \<Rightarrow> path \<Rightarrow> rat \<Rightarrow> rat \<Rightarrow> world \<Rightarrow> world option" where
  "frames_pass 0 env out end_time frame_interval w = Some w"
| "frames_pass (Suc k) env out end_time frame_interval w =
     (let (now, w1) = time_monotonic env w
      in if now < end_time then
           (case frame_body env out frame_interval w1 of
              (None, w2) \<Rightarrow> frames_pass k env out end_time frame_interval w2
            | (Some ex, w2) \<Rightarrow> None)
         else None)"

section \<open>Example inputs\<close>

definition example_recorder :: VideoRecorder where
  "example_recorder =
     \<lparr>output_directory = ''recordings'', folder_id = ''FOLDER'', access_token = ''TOKEN'',
      segment_duration = 300, fps = 20\<rparr>"

definition example_time :: tm where
  "example_time = \<lparr>tm_year = 2025, tm_mon = 3, tm_mday = 7, tm_hour = 14, tm_min = 5, tm_sec = 9\<rparr>"

definition initial_world :: world where
  "initial_world =
     \<lparr>files = {}, trace = [], clock_calls = 0, time_calls = 0, read_calls = 0, key_calls = 0\<rparr>"

text \<open>A world holding one recorded segment.\<close>

definition segment_world :: world where
  "segment_world = initial_world\<lparr>files := {''recordings/video_1.mp4''}\<rparr>"

text \<open>A clock that advances by 10 ms from one reading to the next, a camera that delivers
  every frame, and an operator who presses \<open>q\<close> during the second frame.\<close>

definition operator_quits :: env where
  "operator_quits =
     \<lparr>monotonic = (\<lambda>n. of_nat n / 100), localtime = (\<lambda>n. example_time),
      cap_read = (\<lambda>n. (True, n)), waitKey = (\<lambda>n. if n = 1 then 113 else - 1)\<rparr>"

text \<open>The same clock, a camera whose reads all fail, and no key pressed.\<close>

definition dead_camera :: env where
  "dead_camera =
     \<lparr>monotonic = (\<lambda>n. of_nat n / 100), localtime = (\<lambda>n. example_time),
      cap_read = (\<lambda>n. (False, 0)), waitKey = (\<lambda>n. - 1)\<rparr>"

text \<open>The file of the first segment of the example recorder, and the states of the world when
  its recording has started, after its first frame, and after \<open>q\<close> during its second.\<close>

definition example_file :: path where
  "example_file = generate_filename example_recorder example_time"

definition started_world :: world where
  "started_world =
     \<lparr>files = {example_file},
      trace = [VideoWriter_open example_file 20, Print (Recording example_file)],
      clock_calls = 1, time_calls = 1, read_calls = 0, key_calls = 0\<rparr>"

definition one_frame_world :: world where
  "one_frame_world =
     \<lparr>files = {example_file},
      trace = [VideoWriter_open example_file 20, Print (Recording example_file),
               Writer_write example_file 0, Imshow 0, Sleep (1 / 25)],
      clock_calls = 4, time_calls = 1, read_calls = 1, key_calls = 1\<rparr>"

definition stopped_world :: world where
  "stopped_world =
     \<lparr>files = {example_file},
      trace = [VideoWriter_open example_file 20, Print (Recording example_file),
               Writer_write example_file 0, Imshow 0, Sleep (1 / 25),
               Writer_write example_file 1, Imshow 1, Sleep (1 / 25),
               Print Stopping_recording_manually, Writer_release example_file, Cap_release,
               DestroyAllWindows],
      clock_calls = 7, time_calls = 1, read_calls = 2, key_calls = 2\<rparr>"

section \<open>Facts about paths and timestamps\<close>

lemma rfind_from_append:
  "rfind_from c (xs @ ys) i f = rfind_from c ys (i + int (length xs)) (rfind_from c xs i f)"
  by (induction xs arbitrary: i f) (auto simp: algebra_simps)

lemma rfind_from_absent: "c \<notin> set xs \<Longrightarrow> rfind_from c xs i f = f"
  by (induction xs arbitrary: i) auto

lemma rfind_absent: "c \<notin> set p \<Longrightarrow> rfind p c = - 1"
  by (simp add: rfind_def rfind_from_absent)

lemma rfind_last: "c \<notin> set ys \<Longrightarrow> rfind (xs @ c # ys) c = int (length xs)"
  by (simp add: rfind_def rfind_from_append rfind_from_absent)

lemma rfind_after_sep:
  assumes "pre = [] \<or> last pre = c" and "c \<notin> set rest"
  shows "rfind (pre @ rest) c = int (length pre) - 1"
proof (cases "pre = []")
  case True
  then show ?thesis using assms by (simp add: rfind_absent)
next
  case False
  then have "pre = butlast pre @ [c]" using assms by (metis append_butlast_last_id)
  then obtain bl where bl: "pre = bl @ [c]" ..
  have "rfind (bl @ c # rest) c = int (length bl)" using assms(2) by (rule rfind_last)
  then show ?thesis by (simp add: bl)
qed

lemma basename_after_sep:
  "pre = [] \<or> last pre = CHR ''/'' \<Longrightarrow> CHR ''/'' \<notin> set name \<Longrightarrow> basename (pre @ name) = name"
  by (simp add: basename_def rfind_after_sep)

lemma splitext_scan_parts: "splitext_scan p i d = (r, e) \<Longrightarrow> r @ e = p"
proof (induction p i d rule: splitext_scan.induct)
  case (1 p i d)
  then show ?case
    by (subst (asm) (2) splitext_scan.simps) (auto split: if_splits)
qed

lemma splitext_parts: "splitext p = (r, e) \<Longrightarrow> r @ e = p"
  by (auto simp: splitext_def Let_def split: if_splits dest: splitext_scan_parts)

lemma splitext_named:
  assumes pre: "pre = [] \<or> last pre = CHR ''/''"
    and x: "x \<noteq> CHR ''.''" "x \<noteq> CHR ''/''"
    and mid: "CHR ''/'' \<notin> set mid"
    and e: "CHR ''/'' \<notin> set e" "CHR ''.'' \<notin> set e"
  shows "splitext (pre @ x # mid @ CHR ''.'' # e) = (pre @ x # mid, CHR ''.'' # e)"
proof -
  let ?p = "pre @ x # mid @ CHR ''.'' # e"
  have sep: "rfind ?p CHR ''/'' = int (length pre) - 1"
    using rfind_after_sep [OF pre, of "x # mid @ CHR ''.'' # e"] x mid e by simp
  have "?p = (pre @ x # mid) @ CHR ''.'' # e" by simp
  then have dot: "rfind ?p CHR ''.'' = int (length (pre @ x # mid))"
    using rfind_last [OF e(2), of "pre @ x # mid"] by simp
  have scan: "splitext_scan ?p (length pre) (length (pre @ x # mid)) = (pre @ x # mid, CHR ''.'' # e)"
    using x by (subst splitext_scan.simps) (simp add: nth_append)
  have n1: "nat (int (length pre) - 1 + 1) = length pre" by simp
  have n2: "nat (int (length (pre @ x # mid))) = length (pre @ x # mid)" by (rule nat_int)
  have lt: "int (length (pre @ x # mid)) > int (length pre) - 1" by simp
  show ?thesis
    unfolding splitext_def Let_def sep dot n1 n2 using scan lt by presburger
qed


lemma rfind_cases:
  "(rfind p c = - 1 \<and> c \<notin> set p) \<or>
   (\<exists>xs ys. p = xs @ c # ys \<and> c \<notin> set ys \<and> rfind p c = int (length xs))"
proof (cases "c \<in> set p")
  case False
  then show ?thesis by (simp add: rfind_absent)
next
  case True
  then obtain xs ys where "p = xs @ c # ys" "c \<notin> set ys" by (meson split_list_last)
  then show ?thesis using rfind_last by blast
qed

lemma splitext_scan_result:
  "splitext_scan p i d = (take d p, drop d p) \<or> splitext_scan p i d = (p, [])"
proof (induction p i d rule: splitext_scan.induct)
  case (1 p i d)
  then show ?case by (subst (1 2) splitext_scan.simps) auto
qed

lemma splitext_ext:
  assumes "splitext p = (r, e)"
  shows "e = [] \<or> (\<exists>t. e = CHR ''.'' # t \<and> CHR ''.'' \<notin> set t \<and> CHR ''/'' \<notin> set t)"
proof (cases "e = []")
  case True
  then show ?thesis by simp
next
  case False
  let ?s = "rfind p CHR ''/''" and ?d = "rfind p CHR ''.''"
  have gt: "?d > ?s" and sc: "splitext_scan p (nat (?s + 1)) (nat ?d) = (r, e)"
    using assms False by (auto simp: splitext_def Let_def split: if_splits)
  then have e: "e = drop (nat ?d) p"
    using splitext_scan_result [of p "nat (?s + 1)" "nat ?d"] False by auto
  from rfind_cases [of p "CHR ''.''"] consider "?d = - 1" "CHR ''.'' \<notin> set p"
    | xs ys where "p = xs @ CHR ''.'' # ys" "CHR ''.'' \<notin> set ys" "?d = int (length xs)"
    by blast
  then show ?thesis
  proof cases
    case 1
    have "- 1 \<le> ?s" using rfind_cases [of p "CHR ''/''"] by auto
    then show ?thesis using gt 1 by simp
  next
    case 2
    have ey: "e = CHR ''.'' # ys" using e 2 by simp
    have "CHR ''/'' \<notin> set ys"
    proof
      assume "CHR ''/'' \<in> set ys"
      then obtain us vs where ys: "ys = us @ CHR ''/'' # vs" "CHR ''/'' \<notin> set vs"
        by (meson split_list_last)
      have "p = (xs @ CHR ''.'' # us) @ CHR ''/'' # vs" using 2(1) ys(1) by simp
      then have "?s = int (length (xs @ CHR ''.'' # us))" using rfind_last [OF ys(2)] by metis
      then show False using gt 2(3) by simp
    qed
    then show ?thesis using ey 2(2) by simp
  qed
qed

lemma show_nat_small: "n < 10 \<Longrightarrow> show_nat n = [digit n]"
  using show_nat.simps [of n] by simp

lemma show_nat_step: "10 \<le> n \<Longrightarrow> show_nat n = show_nat (n div 10) @ [digit (n mod 10)]"
  using show_nat.simps [of n] by simp

lemma digit_in: "d < 10 \<Longrightarrow> digit d \<in> set ''0123456789''"
  unfolding digit_def by (rule nth_mem) simp

lemma show_nat_chars: "set (show_nat n) \<subseteq> set ''0123456789''"
proof (induction n rule: show_nat.induct)
  case (1 n)
  show ?case
  proof (cases "n < 10")
    case True
    then show ?thesis using digit_in [of n] by (simp add: show_nat_small)
  next
    case False
    have "n mod 10 < 10" by simp
    then have "digit (n mod 10) \<in> set ''0123456789''" by (rule digit_in)
    then show ?thesis using False 1 by (simp add: show_nat_step)
  qed
qed

lemma pad2_chars: "set (pad2 n) \<subseteq> set ''0123456789''"
  using show_nat_chars [of n] by (auto simp: pad2_def)

lemma strftime_chars:
  assumes "c \<in> set (strftime t)"
  shows "c \<in> set ''0123456789'' \<or> c = CHR ''-'' \<or> c = CHR ''_''"
proof -
  define D where "D = set ''0123456789''"
  have "set (show_nat (tm_year t)) \<subseteq> D" "set (pad2 (tm_mon t)) \<subseteq> D" "set (pad2 (tm_mday t)) \<subseteq> D"
    "set (pad2 (tm_hour t)) \<subseteq> D" "set (pad2 (tm_min t)) \<subseteq> D" "set (pad2 (tm_sec t)) \<subseteq> D"
    unfolding D_def by (rule show_nat_chars pad2_chars)+
  then have "set (strftime t) \<subseteq> D \<union> {CHR ''-'', CHR ''_''}"
    unfolding strftime_def by auto
  then show ?thesis using assms unfolding D_def by blast
qed

lemma show_nat2: "10 \<le> n \<Longrightarrow> n < 100 \<Longrightarrow> show_nat n = [digit (n div 10), digit (n mod 10)]"
  using show_nat_step [of n] show_nat_small [of "n div 10"] by simp

lemma pad2_eq: "n < 100 \<Longrightarrow> pad2 n = [digit (n div 10), digit (n mod 10)]"
proof (cases "n < 10")
  case True
  then show ?thesis using show_nat_small [of n] by (simp add: pad2_def digit_def)
next
  case False
  assume "n < 100"
  then show ?thesis using False show_nat2 [of n] by (simp add: pad2_def)
qed

lemma show_nat4:
  assumes "1000 \<le> n" "n \<le> 9999"
  shows "show_nat n = [digit (n div 1000), digit (n div 100 mod 10), digit (n div 10 mod 10), digit (n mod 10)]"
proof -
  have a: "show_nat n = show_nat (n div 10) @ [digit (n mod 10)]"
    using assms by (simp add: show_nat_step)
  have "10 \<le> n div 10" using assms by simp
  then have b: "show_nat (n div 10) = show_nat (n div 10 div 10) @ [digit (n div 10 mod 10)]"
    by (rule show_nat_step)
  have d: "n div 10 div 10 = n div 100" "n div 100 div 10 = n div 1000"
    by (simp_all add: div_mult2_eq [symmetric])
  have "10 \<le> n div 100" "n div 100 < 100" using assms by simp_all
  then have c: "show_nat (n div 100) = [digit (n div 1000), digit (n div 100 mod 10)]"
    using show_nat2 [of "n div 100"] d by simp
  show ?thesis by (simp add: a b c d)
qed

lemma put_urls_append: "put_urls (xs @ ys) = put_urls xs @ put_urls ys"
  by (induction xs rule: put_urls.induct) simp_all

lemma generated_path_shape:
  "\<exists>pre. (pre = [] \<or> last pre = CHR ''/'') \<and> (\<forall>name. name \<noteq> [] \<longrightarrow> hd name \<noteq> CHR ''/'' \<longrightarrow> path_join d name = pre @ name)"
proof (cases "d = [] \<or> last d = CHR ''/''")
  case True
  then show ?thesis by (intro exI [of _ d]) (auto simp: path_join_def)
next
  case False
  then show ?thesis by (intro exI [of _ "d @ ''/''"]) (auto simp: path_join_def)
qed

lemma compressed_generated:
  "compressed_name (generate_filename self now) =
     path_join (output_directory self) (''video_'' @ strftime now @ ''_compressed.mp4'')"
proof -
  obtain pre where pre: "pre = [] \<or> last pre = CHR ''/''"
    and j: "\<And>name. name \<noteq> [] \<Longrightarrow> hd name \<noteq> CHR ''/'' \<Longrightarrow> path_join (output_directory self) name = pre @ name"
    using generated_path_shape [of "output_directory self"] by blast
  have no: "CHR ''/'' \<notin> set (strftime now)" using strftime_chars [of "CHR ''/''" now] by auto
  have g: "generate_filename self now = pre @ CHR ''v'' # (''ideo_'' @ strftime now) @ CHR ''.'' # ''mp4''"
    using j [of "''video_'' @ strftime now @ ''.mp4''"] by (simp add: generate_filename_def)
  have "splitext (pre @ CHR ''v'' # (''ideo_'' @ strftime now) @ CHR ''.'' # ''mp4'') =
      (pre @ CHR ''v'' # (''ideo_'' @ strftime now), CHR ''.'' # ''mp4'')"
    using pre no by (intro splitext_named) auto
  then have "compressed_name (generate_filename self now) = pre @ ''video_'' @ strftime now @ ''_compressed.mp4''"
    unfolding g compressed_name_def by simp
  then show ?thesis using j [of "''video_'' @ strftime now @ ''_compressed.mp4''"] by simp
qed

lemma strftime_shape:
  assumes "valid_tm now"
  shows "strftime now =
      [digit (tm_year now div 1000), digit (tm_year now div 100 mod 10),
       digit (tm_year now div 10 mod 10), digit (tm_year now mod 10), CHR ''-'',
       digit (tm_mon now div 10), digit (tm_mon now mod 10), CHR ''-'',
       digit (tm_mday now div 10), digit (tm_mday now mod 10), CHR ''_'',
       digit (tm_hour now div 10), digit (tm_hour now mod 10), CHR ''-'',
       digit (tm_min now div 10), digit (tm_min now mod 10), CHR ''-'',
       digit (tm_sec now div 10), digit (tm_sec now mod 10)]"
proof -
  have "show_nat (tm_year now) = [digit (tm_year now div 1000), digit (tm_year now div 100 mod 10),
       digit (tm_year now div 10 mod 10), digit (tm_year now mod 10)]"
    using assms by (intro show_nat4) (simp_all add: valid_tm_def)
  moreover have "pad2 (tm_mon now) = [digit (tm_mon now div 10), digit (tm_mon now mod 10)]"
    "pad2 (tm_mday now) = [digit (tm_mday now div 10), digit (tm_mday now mod 10)]"
    "pad2 (tm_hour now) = [digit (tm_hour now div 10), digit (tm_hour now mod 10)]"
    "pad2 (tm_min now) = [digit (tm_min now div 10), digit (tm_min now mod 10)]"
    "pad2 (tm_sec now) = [digit (tm_sec now div 10), digit (tm_sec now mod 10)]"
    using assms by (simp_all add: valid_tm_def pad2_eq)
  ultimately show ?thesis by (simp add: strftime_def)
qed

lemma compressed_general:
  "\<exists>base_name ext. splitext input_file = (base_name, ext) \<and> base_name @ ext = input_file \<and>
     (ext = [] \<or> (\<exists>t. ext = CHR ''.'' # t \<and> CHR ''.'' \<notin> set t \<and> CHR ''/'' \<notin> set t)) \<and>
     compressed_name input_file = base_name @ ''_compressed'' @ ext"
proof -
  obtain b e where be: "splitext input_file = (b, e)" by (cases "splitext input_file")
  then show ?thesis
    using splitext_parts [OF be] splitext_ext [OF be] by (simp add: compressed_name_def)
qed

text \<open>
  Claim C8. Every generated segment path is the output directory joined with
  \<open>video_<timestamp>.mp4\<close>, where the timestamp is the local time as
  \<open>YYYY-MM-DD_HH-MM-SS\<close> (its last field is the second); and for every input path the
  compressed file's path is the input's base name (the path without its extension), then
  \<open>_compressed\<close>, then the extension. For a generated path this is the output directory
  joined with \<open>video_<timestamp>_compressed.mp4\<close>.
\<close>

theorem segment_and_compressed_names:
  assumes "valid_tm now"
  shows "generate_filename self now =
           path_join (output_directory self) (''video_'' @ strftime now @ ''.mp4'') \<and>
         strftime now =
           [digit (tm_year now div 1000), digit (tm_year now div 100 mod 10),
            digit (tm_year now div 10 mod 10), digit (tm_year now mod 10), CHR ''-'',
            digit (tm_mon now div 10), digit (tm_mon now mod 10), CHR ''-'',
            digit (tm_mday now div 10), digit (tm_mday now mod 10), CHR ''_'',
            digit (tm_hour now div 10), digit (tm_hour now mod 10), CHR ''-'',
            digit (tm_min now div 10), digit (tm_min now mod 10), CHR ''-'',
            digit (tm_sec now div 10), digit (tm_sec now mod 10)] \<and>
         (\<exists>base_name ext. splitext input_file = (base_name, ext) \<and> base_name @ ext = input_file \<and>
            (ext = [] \<or> (\<exists>t. ext = CHR ''.'' # t \<and> CHR ''.'' \<notin> set t \<and> CHR ''/'' \<notin> set t)) \<and>
            compressed_name input_file = base_name @ ''_compressed'' @ ext) \<and>
         compressed_name (generate_filename self now) =
           path_join (output_directory self) (''video_'' @ strftime now @ ''_compressed.mp4'')"
  using strftime_shape [OF assms] compressed_general [of input_file] compressed_generated [of self now]
  by (simp add: generate_filename_def)

theorem segment_and_compressed_names_witness:
  "valid_tm example_time \<and>
   generate_filename example_recorder example_time = ''recordings/video_2025-03-07_14-05-09.mp4'' \<and>
   compressed_name (generate_filename example_recorder example_time) =
     ''recordings/video_2025-03-07_14-05-09_compressed.mp4''"
proof -
  have v: "valid_tm example_time" by (simp add: valid_tm_def example_time_def)
  have od: "output_directory example_recorder = ''recordings''"
    by (simp add: example_recorder_def)
  note t = segment_and_compressed_names [OF v, of example_recorder "[]"]
  have s: "strftime example_time = ''2025-03-07_14-05-09''"
    using t [THEN conjunct2, THEN conjunct1] by (simp add: example_time_def digit_def)
  have g: "generate_filename example_recorder example_time =
      path_join ''recordings'' (''video_'' @ strftime example_time @ ''.mp4'')"
    using t [THEN conjunct1] unfolding od .
  have c: "compressed_name (generate_filename example_recorder example_time) =
      path_join ''recordings'' (''video_'' @ strftime example_time @ ''_compressed.mp4'')"
    using t [THEN conjunct2, THEN conjunct2, THEN conjunct2] unfolding od .
  show ?thesis
    unfolding c unfolding g s using v by (simp add: path_join_def)
qed

text \<open>
  Claim C10. The upload URL depends on the file path only through its base name, and on the
  recorder only through the folder id: two paths with the same base name give the same URL in
  \<^verbatim>\<open>get_upload_url\<close> and in \<^verbatim>\<open>upload_to_onedrive\<close>, the two routines agree with each other, and
  that URL is the one the HTTP request of either routine is sent to.
\<close>

theorem upload_url_of_basename:
  assumes "basename p = basename q" and "folder_id self = fid" and "folder_id self' = fid"
  shows "get_upload_url self p = get_upload_url self' q \<and>
         onedrive_upload_url p fid = onedrive_upload_url q fid \<and>
         get_upload_url self p = onedrive_upload_url q fid \<and>
         put_urls (trace (snd (upload self oc p w))) =
           put_urls (trace w) @ (if p \<in> files w then [get_upload_url self' q] else []) \<and>
         put_urls (trace (snd (upload_to_onedrive oc' q token fid w'))) =
           put_urls (trace w') @ (if q \<in> files w' then [get_upload_url self p] else [])"
proof -
  have u: "get_upload_url self p = get_upload_url self' q"
    and o: "onedrive_upload_url p fid = onedrive_upload_url q fid"
    and uo: "get_upload_url self p = onedrive_upload_url q fid"
    using assms by (simp_all add: get_upload_url_def onedrive_upload_url_def)
  have a: "put_urls (trace (snd (upload self oc p w))) =
           put_urls (trace w) @ (if p \<in> files w then [get_upload_url self p] else [])"
    by (auto simp: upload_def upload_try_def emit_def Let_def put_urls_append
        split: put_outcome.splits option.splits)
  have b: "put_urls (trace (snd (upload_to_onedrive oc' q token fid w'))) =
           put_urls (trace w') @ (if q \<in> files w' then [onedrive_upload_url q fid] else [])"
    by (auto simp: upload_to_onedrive_def onedrive_try_def emit_def Let_def put_urls_append
        split: put_outcome.splits option.splits)
  show ?thesis using u o uo a b by simp
qed

theorem upload_url_of_basename_witness:
  "basename ''recordings/video_1.mp4'' = basename ''/tmp/other/video_1.mp4'' \<and>
   get_upload_url example_recorder ''recordings/video_1.mp4'' =
     get_upload_url example_recorder ''/tmp/other/video_1.mp4'' \<and>
   get_upload_url example_recorder ''recordings/video_1.mp4'' =
     onedrive_upload_url ''/tmp/other/video_1.mp4'' ''FOLDER''"
proof -
  have b: "basename ''recordings/video_1.mp4'' = basename ''/tmp/other/video_1.mp4''"
    by (simp add: basename_def rfind_def)
  have f: "folder_id example_recorder = ''FOLDER''" by (simp add: example_recorder_def)
  note t = upload_url_of_basename [OF b f f, where oc = "Response 201 None" and w = initial_world
      and oc' = "Response 200 None" and w' = initial_world and token = "''TOKEN''"]
  show ?thesis
    using b t [THEN conjunct1] t [THEN conjunct2, THEN conjunct2, THEN conjunct1] by simp
qed

section \<open>Compression and the background task\<close>

lemma compressed_name_differs: "compressed_name p \<noteq> p"
proof -
  obtain b e where be: "splitext p = (b, e)" by (cases "splitext p")
  have "length (compressed_name p) = length p + 11"
    using splitext_parts [OF be] be by (auto simp: compressed_name_def)
  then show ?thesis by auto
qed

lemma compress_video_failed:
  assumes "rc \<noteq> 0"
  shows "compress_video (Exited rc wrote) input_file w =
     (Inr input_file,
      w\<lparr>files := (if wrote then insert (compressed_name input_file) (files w) else files w),
        trace := trace w @
          [Subprocess_run (ffmpeg_command input_file (compressed_name input_file)),
           Print (Error_compressing_video (CalledProcessError rc))]\<rparr>)"
  using assms
  by (simp add: compress_video_def compress_try_def subprocess_run_def emit_def Let_def)

lemma compress_video_succeeded:
  assumes "input_file \<in> files w"
  shows "compress_video (Exited 0 wrote) input_file w =
     (Inr (compressed_name input_file),
      w\<lparr>files := insert (compressed_name input_file) (files w) - {input_file},
        trace := trace w @
          [Subprocess_run (ffmpeg_command input_file (compressed_name input_file)),
           Os_remove input_file,
           Print (Compressed_video_saved (compressed_name input_file))]\<rparr>)"
  using assms
  by (simp add: compress_video_def compress_try_def subprocess_run_def os_remove_def emit_def Let_def)

lemma compress_video_not_launched:
  "compress_video (Not_launched m) input_file w =
     (Inl (OSError m),
      w\<lparr>trace := trace w @ [Subprocess_run (ffmpeg_command input_file (compressed_name input_file))]\<rparr>)"
  by (simp add: compress_video_def compress_try_def subprocess_run_def emit_def Let_def)

text \<open>
  Claim C9. When the compression child exits with a non-zero status
  (\<^verbatim>\<open>CalledProcessError\<close>), \<^verbatim>\<open>compress_video\<close> returns the input path, never calls
  \<^verbatim>\<open>os.remove\<close>, and leaves the file system as it was for the input file, and for every
  file but the output the child may have left.
\<close>

theorem failed_compression_keeps_input:
  assumes "rc \<noteq> 0"
  shows "fst (compress_video (Exited rc wrote) input_file w) = Inr input_file \<and>
         (input_file \<in> files (snd (compress_video (Exited rc wrote) input_file w)) \<longleftrightarrow>
            input_file \<in> files w) \<and>
         files (snd (compress_video (Exited rc wrote) input_file w)) - {compressed_name input_file} =
           files w - {compressed_name input_file} \<and>
         events_since w (snd (compress_video (Exited rc wrote) input_file w)) =
           [Subprocess_run (ffmpeg_command input_file (compressed_name input_file)),
            Print (Error_compressing_video (CalledProcessError rc))] \<and>
         Os_remove input_file \<notin> set (events_since w (snd (compress_video (Exited rc wrote) input_file w)))"
  using compressed_name_differs [of input_file]
  by (auto simp: compress_video_failed [OF assms] events_since_def)

theorem failed_compression_keeps_input_witness:
  "(1::int) \<noteq> 0 \<and>
   fst (compress_video (Exited 1 True) ''recordings/video_1.mp4'' segment_world) =
     Inr ''recordings/video_1.mp4'' \<and>
   ''recordings/video_1.mp4'' \<in>
     files (snd (compress_video (Exited 1 True) ''recordings/video_1.mp4'' segment_world))"
proof -
  have h: "(1::int) \<noteq> 0" by simp
  note t = failed_compression_keeps_input [OF h, of True "''recordings/video_1.mp4''" segment_world]
  have "''recordings/video_1.mp4'' \<in> files segment_world"
    by (simp add: segment_world_def initial_world_def)
  then show ?thesis using t by simp
qed

text \<open>
  The failure the handler of \<^verbatim>\<open>compress_video\<close> covers: when the compression child exits with
  a non-zero status (\<^verbatim>\<open>CalledProcessError\<close>), \<^verbatim>\<open>compress_video\<close> returns the input path and the
  task goes on to \<^verbatim>\<open>upload_video\<close> with that original path.
\<close>

lemma failed_compression_uploads_original:
  assumes "rc \<noteq> 0"
  shows "fst (compress_video (Exited rc wrote) video_filename w) = Inr video_filename \<and>
         fst (process self (Exited rc wrote) video_filename w) = Inr () \<and>
         events_since w (snd (process self (Exited rc wrote) video_filename w)) =
           [Subprocess_run (ffmpeg_command video_filename (compressed_name video_filename)),
            Print (Error_compressing_video (CalledProcessError rc)),
            Thread_start (Upload video_filename)] \<and>
         tasks_started (events_since w (snd (process self (Exited rc wrote) video_filename w))) =
           [Upload video_filename]"
  by (simp add: process_def compress_video_failed [OF assms] upload_video_def emit_def events_since_def)

lemma failed_compression_uploads_original_example:
  "(1::int) \<noteq> 0 \<and>
   tasks_started (events_since segment_world
     (snd (process example_recorder (Exited 1 False) ''recordings/video_1.mp4'' segment_world))) =
     [Upload ''recordings/video_1.mp4'']"
proof -
  have h: "(1::int) \<noteq> 0" by simp
  show ?thesis
    using h failed_compression_uploads_original [OF h, of False "''recordings/video_1.mp4''"
        segment_world example_recorder]
    by simp
qed

text \<open>
  The failure it misses: when the child cannot be launched, \<^verbatim>\<open>subprocess.run\<close> raises an
  \<^verbatim>\<open>OSError\<close>, which \<^verbatim>\<open>except subprocess.CalledProcessError\<close> does not catch. For every such
  launch failure, every segment and every state of the world, the exception leaves
  \<^verbatim>\<open>compress_video\<close> and the task, and no upload thread is started.
\<close>

lemma launch_failure_ends_task:
  "fst (compress_video (Not_launched m) video_filename w) = Inl (OSError m) \<and>
   fst (process self (Not_launched m) video_filename w) = Inl (OSError m) \<and>
   events_since w (snd (process self (Not_launched m) video_filename w)) =
     [Subprocess_run (ffmpeg_command video_filename (compressed_name video_filename))] \<and>
   tasks_started (events_since w (snd (process self (Not_launched m) video_filename w))) = [] \<and>
   files (snd (process self (Not_launched m) video_filename w)) = files w"
  by (simp add: process_def compress_video_not_launched events_since_def)

text \<open>
  Claim C1. For every finalized segment whose compression step fails (the transcoder
  invocation raises an error), the upload is still started, with the segment's original
  path, as the comment \<^verbatim>\<open># Upload original if compression fails\<close> in \<^verbatim>\<open>compress_video\<close> says.
  The code does not do so for a transcoder that cannot be launched: for the recorded segment
  \<^verbatim>\<open>recordings/video_1.mp4\<close>, the invocation raises \<^verbatim>\<open>OSError\<close>, \<^verbatim>\<open>compress_video\<close> and the task
  end with that exception, no upload thread is started, and the segment stays on disk.
\<close>

theorem launch_failure_prevents_upload:
  "fst (subprocess_run (Not_launched ''ffmpeg'')
          (ffmpeg_command ''recordings/video_1.mp4'' (compressed_name ''recordings/video_1.mp4''))
          (compressed_name ''recordings/video_1.mp4'') segment_world) = Inl (OSError ''ffmpeg'') \<and>
   fst (compress_video (Not_launched ''ffmpeg'') ''recordings/video_1.mp4'' segment_world) =
     Inl (OSError ''ffmpeg'') \<and>
   fst (process example_recorder (Not_launched ''ffmpeg'') ''recordings/video_1.mp4'' segment_world) =
     Inl (OSError ''ffmpeg'') \<and>
   tasks_started (events_since segment_world
     (snd (process example_recorder (Not_launched ''ffmpeg'') ''recordings/video_1.mp4''
        segment_world))) = [] \<and>
   ''recordings/video_1.mp4'' \<in>
     files (snd (process example_recorder (Not_launched ''ffmpeg'') ''recordings/video_1.mp4''
        segment_world))"
  by (simp add: process_def compress_video_not_launched subprocess_run_def emit_def events_since_def
      segment_world_def initial_world_def)

text \<open>
  Claim C3. When the compression child succeeds on a segment whose file is there, the
  original file is removed, \<^verbatim>\<open>compress_video\<close> returns the compressed path, which differs
  from the original one, and the upload thread is started for the compressed path, after
  the removal.
\<close>

theorem successful_compression_uploads_compressed:
  assumes "video_filename \<in> files w"
  shows "fst (compress_video (Exited 0 wrote) video_filename w) = Inr (compressed_name video_filename) \<and>
         compressed_name video_filename \<noteq> video_filename \<and>
         fst (process self (Exited 0 wrote) video_filename w) = Inr () \<and>
         events_since w (snd (process self (Exited 0 wrote) video_filename w)) =
           [Subprocess_run (ffmpeg_command video_filename (compressed_name video_filename)),
            Os_remove video_filename,
            Print (Compressed_video_saved (compressed_name video_filename)),
            Thread_start (Upload (compressed_name video_filename))] \<and>
         tasks_started (events_since w (snd (process self (Exited 0 wrote) video_filename w))) =
           [Upload (compressed_name video_filename)] \<and>
         video_filename \<notin> files (snd (process self (Exited 0 wrote) video_filename w)) \<and>
         compressed_name video_filename \<in> files (snd (process self (Exited 0 wrote) video_filename w))"
  using compressed_name_differs [of video_filename]
  by (simp add: process_def compress_video_succeeded [OF assms] upload_video_def emit_def
      events_since_def)

theorem successful_compression_uploads_compressed_witness:
  "''recordings/video_1.mp4'' \<in> files segment_world \<and>
   tasks_started (events_since segment_world
     (snd (process example_recorder (Exited 0 True) ''recordings/video_1.mp4'' segment_world))) =
     [Upload ''recordings/video_1_compressed.mp4''] \<and>
   files (snd (process example_recorder (Exited 0 True) ''recordings/video_1.mp4'' segment_world)) =
     {''recordings/video_1_compressed.mp4''}"
proof -
  have h: "''recordings/video_1.mp4'' \<in> files segment_world"
    by (simp add: segment_world_def initial_world_def)
  have c: "compressed_name ''recordings/video_1.mp4'' = ''recordings/video_1_compressed.mp4''"
    by (simp add: compressed_name_def splitext_def rfind_def splitext_scan.simps)
  have f: "files (snd (process example_recorder (Exited 0 True) ''recordings/video_1.mp4'' segment_world)) =
     {''recordings/video_1_compressed.mp4''}"
    unfolding process_def compress_video_succeeded [OF h] c
    by (auto simp: upload_video_def emit_def segment_world_def initial_world_def)
  show ?thesis
    using h f successful_compression_uploads_compressed [OF h, of True example_recorder]
    by (simp add: c)
qed

lemma tasks_started_append: "tasks_started (xs @ ys) = tasks_started xs @ tasks_started ys"
  by (induction xs rule: tasks_started.induct) simp_all

lemma compress_video_events:
  "\<exists>rest. trace (snd (compress_video oc input_file w)) =
       trace w @ Subprocess_run (ffmpeg_command input_file (compressed_name input_file)) # rest \<and>
     tasks_started rest = [] \<and> put_urls rest = []"
  by (cases oc)
    (auto simp: compress_video_def compress_try_def subprocess_run_def os_remove_def emit_def Let_def
      split: py_exn.splits)

text \<open>
  Claim C7. \<^verbatim>\<open>process_video\<close> does nothing but start the task's thread, and hands nothing
  back. Inside the task the first event is the compression child; no upload thread is started
  and no request is sent while \<^verbatim>\<open>compress_video\<close> runs; the upload thread is started once it
  has returned, for the path it returned, and not at all when it raised.
\<close>

theorem compression_precedes_upload:
  "process_video self video_filename w = w\<lparr>trace := trace w @ [Thread_start (Process video_filename)]\<rparr> \<and>
   (\<exists>rest. trace (snd (compress_video oc video_filename w)) =
       trace w @ Subprocess_run (ffmpeg_command video_filename (compressed_name video_filename)) # rest \<and>
     tasks_started rest = [] \<and> put_urls rest = []) \<and>
   trace (snd (process self oc video_filename w)) =
     trace (snd (compress_video oc video_filename w)) @
     (case fst (compress_video oc video_filename w) of
        Inl e \<Rightarrow> []
      | Inr compressed_filename \<Rightarrow> [Thread_start (Upload compressed_filename)]) \<and>
   fst (process self oc video_filename w) =
     (case fst (compress_video oc video_filename w) of Inl e \<Rightarrow> Inl e | Inr p \<Rightarrow> Inr ())"
  using compress_video_events [of oc video_filename w]
  by (auto simp: process_video_def process_def upload_video_def emit_def split: prod.splits sum.splits)

text \<open>
  Claim C4. The upload thread of the recorder reports success exactly when a response came
  back with status 201, the one-shot \<^verbatim>\<open>upload_to_onedrive\<close> exactly when it came back with
  status 200 or 201; in every other case (another status, an exception of the request, a
  file that cannot be opened) a failure is reported; and neither routine raises.
  \<^verbatim>\<open>upload_video\<close> itself only starts the thread.
\<close>

theorem upload_success_status:
  "upload_video self video_filename w = w\<lparr>trace := trace w @ [Thread_start (Upload video_filename)]\<rparr> \<and>
   fst (upload self oc video_filename w) = Inr () \<and>
   fst (upload_to_onedrive oc file_path token fid w) = Inr () \<and>
   (Print (Successfully_uploaded video_filename) \<in>
      set (events_since w (snd (upload self oc video_filename w))) \<longleftrightarrow>
    video_filename \<in> files w \<and> response_status oc = Some 201) \<and>
   (list_ex failure_report (events_since w (snd (upload self oc video_filename w))) \<longleftrightarrow>
    \<not> (video_filename \<in> files w \<and> response_status oc = Some 201)) \<and>
   (Print Upload_successful \<in>
      set (events_since w (snd (upload_to_onedrive oc file_path token fid w))) \<longleftrightarrow>
    file_path \<in> files w \<and> (response_status oc = Some 200 \<or> response_status oc = Some 201)) \<and>
   (list_ex failure_report (events_since w (snd (upload_to_onedrive oc file_path token fid w))) \<longleftrightarrow>
    \<not> (file_path \<in> files w \<and> (response_status oc = Some 200 \<or> response_status oc = Some 201)))"
proof -
  have a: "fst (upload self oc video_filename w) = Inr ()"
    by (auto simp: upload_def upload_try_def Let_def split: put_outcome.splits option.splits)
  have b: "fst (upload_to_onedrive oc file_path token fid w) = Inr ()"
    by (auto simp: upload_to_onedrive_def onedrive_try_def emit_def Let_def
        split: put_outcome.splits option.splits)
  have c: "Print (Successfully_uploaded video_filename) \<in>
      set (events_since w (snd (upload self oc video_filename w))) \<longleftrightarrow>
    video_filename \<in> files w \<and> response_status oc = Some 201"
    by (cases oc)
      (auto simp: upload_def upload_try_def emit_def Let_def events_since_def split: option.splits)
  have d: "list_ex failure_report (events_since w (snd (upload self oc video_filename w))) \<longleftrightarrow>
    \<not> (video_filename \<in> files w \<and> response_status oc = Some 201)"
    by (cases oc)
      (auto simp: upload_def upload_try_def emit_def Let_def events_since_def split: option.splits)
  have e: "Print Upload_successful \<in>
      set (events_since w (snd (upload_to_onedrive oc file_path token fid w))) \<longleftrightarrow>
    file_path \<in> files w \<and> (response_status oc = Some 200 \<or> response_status oc = Some 201)"
    by (cases oc)
      (auto simp: upload_to_onedrive_def onedrive_try_def emit_def Let_def events_since_def
        split: option.splits)
  have f: "list_ex failure_report (events_since w (snd (upload_to_onedrive oc file_path token fid w))) \<longleftrightarrow>
    \<not> (file_path \<in> files w \<and> (response_status oc = Some 200 \<or> response_status oc = Some 201))"
    by (cases oc)
      (auto simp: upload_to_onedrive_def onedrive_try_def emit_def Let_def events_since_def
        split: option.splits)
  have g: "upload_video self video_filename w =
      w\<lparr>trace := trace w @ [Thread_start (Upload video_filename)]\<rparr>"
    by (simp add: upload_video_def emit_def)
  show ?thesis using a b c d e f g by blast
qed

section \<open>The frame loop and the segments\<close>

lemma events_since_append: "trace w' = trace w @ evs \<Longrightarrow> events_since w w' = evs"
  by (simp add: events_since_def)

lemma sleeps_append: "sleeps (xs @ ys) = sleeps xs @ sleeps ys"
  by (induction xs rule: sleeps.induct) simp_all

lemma frames_written_append: "frames_written (xs @ ys) = frames_written xs @ frames_written ys"
  by (induction xs rule: frames_written.induct) simp_all

lemma frame_body_read_failed:
  assumes "\<not> fst (cap_read env (read_calls w))"
  shows "frame_body env out fi w =
     (Some Broke,
      w\<lparr>clock_calls := Suc (clock_calls w), read_calls := Suc (read_calls w),
        trace := trace w @ [Print Failed_to_capture_frame]\<rparr>)"
  using assms
  by (simp add: frame_body_def time_monotonic_def read_frame_def emit_def Let_def case_prod_beta)

lemma frame_body_quit:
  assumes "fst (cap_read env (read_calls w))" and "waitKey env (key_calls w) AND 255 = 113"
  shows "frame_body env out fi w =
     (Some Stopped,
      w\<lparr>clock_calls := Suc (Suc (clock_calls w)), read_calls := Suc (read_calls w),
        key_calls := Suc (key_calls w),
        trace := trace w @
          [Writer_write out (snd (cap_read env (read_calls w))),
           Imshow (snd (cap_read env (read_calls w)))] @
          (if fi - (monotonic env (Suc (clock_calls w)) - monotonic env (clock_calls w)) > 0
           then [Sleep (fi - (monotonic env (Suc (clock_calls w)) - monotonic env (clock_calls w)))]
           else []) @
          [Print Stopping_recording_manually, Writer_release out, Cap_release, DestroyAllWindows]\<rparr>)"
  using assms
  by (simp add: frame_body_def time_monotonic_def read_frame_def wait_key_def close_camera_def
      emit_def Let_def case_prod_beta)

lemma frame_body_sleeps:
  "sleeps (events_since w (snd (frame_body env out fi w))) =
     (let elapsed = monotonic env (Suc (clock_calls w)) - monotonic env (clock_calls w);
          remaining_time = fi - elapsed
      in if fst (cap_read env (read_calls w)) \<and> remaining_time > 0 then [remaining_time] else [])"
  by (simp add: frame_body_def time_monotonic_def read_frame_def wait_key_def close_camera_def
      emit_def Let_def events_since_def case_prod_beta)

lemma frame_body_written:
  "frames_written (events_since w (snd (frame_body env out fi w))) =
     (if fst (cap_read env (read_calls w)) then [snd (cap_read env (read_calls w))] else [])"
  by (simp add: frame_body_def time_monotonic_def read_frame_def wait_key_def close_camera_def
      emit_def Let_def events_since_def case_prod_beta)

lemma frame_body_extends:
  "\<exists>evs. trace (snd (frame_body env out fi w)) = trace w @ evs \<and> tasks_started evs = [] \<and>
     list_all (\<lambda>d. 0 < d) (sleeps evs) \<and> length (sleeps evs) \<le> length (frames_written evs)"
  by (simp add: frame_body_def time_monotonic_def read_frame_def wait_key_def close_camera_def
      emit_def Let_def case_prod_beta)

lemma time_monotonic_trace [simp]: "trace (snd (time_monotonic env w)) = trace w"
  by (simp add: time_monotonic_def)

lemma frames_pass_extends:
  "frames_pass k env out end_time fi w = Some wk \<Longrightarrow>
   \<exists>evs. trace wk = trace w @ evs \<and> tasks_started evs = [] \<and>
     list_all (\<lambda>d. 0 < d) (sleeps evs) \<and> length (sleeps evs) \<le> length (frames_written evs)"
proof (induction k arbitrary: w)
  case 0
  then show ?case by simp
next
  case (Suc k)
  obtain now w1 where t: "time_monotonic env w = (now, w1)" by (cases "time_monotonic env w")
  obtain r w2 where b: "frame_body env out fi w1 = (r, w2)" by (cases "frame_body env out fi w1")
  from Suc.prems t b have r: "r = None" and rest: "frames_pass k env out end_time fi w2 = Some wk"
    by (auto split: if_splits option.splits)
  from frame_body_extends [of env out fi w1] b t
  obtain e1 where e1: "trace w2 = trace w @ e1" "tasks_started e1 = []"
    "list_all (\<lambda>d. 0 < d) (sleeps e1)" "length (sleeps e1) \<le> length (frames_written e1)"
    using time_monotonic_trace [of env w] by auto
  from Suc.IH [OF rest]
  obtain e2 where e2: "trace wk = trace w2 @ e2" "tasks_started e2 = []"
    "list_all (\<lambda>d. 0 < d) (sleeps e2)" "length (sleeps e2) \<le> length (frames_written e2)"
    by auto
  show ?case
    using e1 e2
    by (intro exI [of _ "e1 @ e2"]) (simp add: tasks_started_append sleeps_append frames_written_append)
qed

lemma frame_loop_after_passes:
  "frames_pass k env out end_time fi w = Some wk \<Longrightarrow>
   frame_loop env out end_time fi w = frame_loop env out end_time fi wk"
proof (induction k arbitrary: w)
  case 0
  then show ?case by simp
next
  case (Suc k)
  obtain now w1 where t: "time_monotonic env w = (now, w1)" by (cases "time_monotonic env w")
  obtain r w2 where b: "frame_body env out fi w1 = (r, w2)" by (cases "frame_body env out fi w1")
  from Suc.prems t b have c: "now < end_time" and r: "r = None"
    and rest: "frames_pass k env out end_time fi w2 = Some wk"
    by (auto split: if_splits option.splits)
  have "frame_loop env out end_time fi w = frame_loop env out end_time fi w2"
    using t b c r by (subst frame_loop.simps) simp
  then show ?case using Suc.IH [OF rest] by simp
qed

lemma frame_loop_extends:
  assumes "frame_loop env out end_time fi w = Some r"
  shows "\<exists>evs. trace (snd r) = trace w @ evs \<and> tasks_started evs = [] \<and>
     list_all (\<lambda>d. 0 < d) (sleeps evs)"
proof (rule frame_loop.raw_induct [where P = "\<lambda>env out end_time fi w r.
    \<exists>evs. trace (snd r) = trace w @ evs \<and> tasks_started evs = [] \<and>
      list_all (\<lambda>d. 0 < d) (sleeps evs)", OF _ assms])
  fix loop env out end_time fi w r
  assume IH: "\<And>env out end_time fi w r. loop env out end_time fi w = Some r \<Longrightarrow>
      \<exists>evs. trace (snd r) = trace w @ evs \<and> tasks_started evs = [] \<and>
        list_all (\<lambda>d. 0 < d) (sleeps evs)"
    and body: "(let (now, w1) = time_monotonic env w
      in if now < end_time then
           (case frame_body env out fi w1 of
              (None, w2) \<Rightarrow> loop env out end_time fi w2
            | (Some ex, w2) \<Rightarrow> Some (ex, w2))
         else Some (Elapsed, w1)) = Some r"
  obtain now w1 where t: "time_monotonic env w = (now, w1)" by (cases "time_monotonic env w")
  obtain b w2 where b: "frame_body env out fi w1 = (b, w2)" by (cases "frame_body env out fi w1")
  have w1: "trace w1 = trace w" using t time_monotonic_trace [of env w] by simp
  from frame_body_extends [of env out fi w1] b w1
  obtain e1 where e1: "trace w2 = trace w @ e1" "tasks_started e1 = []"
    "list_all (\<lambda>d. 0 < d) (sleeps e1)"
    by auto
  show "\<exists>evs. trace (snd r) = trace w @ evs \<and> tasks_started evs = [] \<and>
      list_all (\<lambda>d. 0 < d) (sleeps evs)"
  proof (cases "now < end_time")
    case False
    then have "r = (Elapsed, w1)" using body t by simp
    then show ?thesis using w1 by simp
  next
    case True
    show ?thesis
    proof (cases b)
      case (Some ex)
      then have "r = (ex, w2)" using body t b True by simp
      then show ?thesis using e1 by simp
    next
      case None
      then have "loop env out end_time fi w2 = Some r" using body t b True by simp
      then obtain e2 where e2: "trace (snd r) = trace w2 @ e2" "tasks_started e2 = []"
        "list_all (\<lambda>d. 0 < d) (sleeps e2)"
        using IH by blast
      show ?thesis
        using e1 e2
        by (intro exI [of _ "e1 @ e2"]) (simp add: tasks_started_append sleeps_append)
    qed
  qed
qed

lemma segment_start_trace:
  assumes "segment_start self env w0 = (video_filename, end_time, w3)"
  shows "trace w3 = trace w0 @ [VideoWriter_open video_filename (fps self), Print (Recording video_filename)]"
  using assms
  by (auto simp: segment_start_def time_localtime_def time_monotonic_def open_writer_def emit_def Let_def)

lemma frame_loop_quit:
  assumes "monotonic env (clock_calls w) < end_time"
    and "fst (cap_read env (read_calls w))"
    and "waitKey env (key_calls w) AND 255 = 113"
  shows "\<exists>w1 pre. frame_loop env out end_time fi w = Some (Stopped, w1) \<and>
     trace w1 = trace w @ pre @
       [Print Stopping_recording_manually, Writer_release out, Cap_release, DestroyAllWindows] \<and>
     tasks_started pre = [] \<and> files w1 = files w"
proof -
  let ?w1 = "w\<lparr>clock_calls := Suc (clock_calls w)\<rparr>"
  have t: "time_monotonic env w = (monotonic env (clock_calls w), ?w1)"
    by (simp add: time_monotonic_def)
  have q: "fst (cap_read env (read_calls ?w1))" "waitKey env (key_calls ?w1) AND 255 = 113"
    using assms by simp_all
  note b = frame_body_quit [OF q, of out fi]
  have l: "frame_loop env out end_time fi w = Some (Stopped, snd (frame_body env out fi ?w1))"
    using assms(1) by (subst frame_loop.simps) (simp add: t b)
  have p: "tasks_started ([Writer_write out (snd (cap_read env (read_calls ?w1))),
           Imshow (snd (cap_read env (read_calls ?w1)))] @
          (if fi - (monotonic env (Suc (clock_calls ?w1)) - monotonic env (clock_calls ?w1)) > 0
           then [Sleep (fi - (monotonic env (Suc (clock_calls ?w1)) - monotonic env (clock_calls ?w1)))]
           else [])) = []"
    by simp
  show ?thesis
    apply (rule exI [of _ "snd (frame_body env out fi ?w1)"])
    apply (rule exI [of _ "[Writer_write out (snd (cap_read env (read_calls ?w1))),
           Imshow (snd (cap_read env (read_calls ?w1)))] @
          (if fi - (monotonic env (Suc (clock_calls ?w1)) - monotonic env (clock_calls ?w1)) > 0
           then [Sleep (fi - (monotonic env (Suc (clock_calls ?w1)) - monotonic env (clock_calls ?w1)))]
           else [])"])
    apply (intro conjI)
       apply (rule l)
      apply (simp add: b)
     apply (rule p)
    apply (simp add: b)
    done
qed

lemma frame_loop_read_failed:
  assumes "monotonic env (clock_calls w) < end_time"
    and "\<not> fst (cap_read env (read_calls w))"
  shows "frame_loop env out end_time fi w =
     Some (Broke, w\<lparr>clock_calls := Suc (Suc (clock_calls w)), read_calls := Suc (read_calls w),
        trace := trace w @ [Print Failed_to_capture_frame]\<rparr>)"
proof -
  let ?w1 = "w\<lparr>clock_calls := Suc (clock_calls w)\<rparr>"
  have t: "time_monotonic env w = (monotonic env (clock_calls w), ?w1)"
    by (simp add: time_monotonic_def)
  have q: "\<not> fst (cap_read env (read_calls ?w1))" using assms by simp
  show ?thesis
    using assms(1) by (subst frame_loop.simps) (simp add: t frame_body_read_failed [OF q])
qed

lemma record_segment_quit:
  assumes "fps self \<noteq> 0"
    and "segment_start self env w0 = (video_filename, end_time, w3)"
    and "frames_pass k env video_filename end_time (1 / fps self) w3 = Some w"
    and "monotonic env (clock_calls w) < end_time"
    and "fst (cap_read env (read_calls w))"
    and "waitKey env (key_calls w) AND 255 = 113"
  shows "\<exists>w' pre. record_segment self env w0 = Some (Inr Returned, w') \<and>
     trace w' = trace w @ pre @
       [Print Stopping_recording_manually, Writer_release video_filename, Cap_release,
        DestroyAllWindows, Writer_release video_filename, Print (Video_saved video_filename)] \<and>
     tasks_started pre = [] \<and>
     tasks_started (events_since w0 w') = []"
proof -
  obtain w1 pre where l: "frame_loop env video_filename end_time (1 / fps self) w = Some (Stopped, w1)"
    and tr: "trace w1 = trace w @ pre @
       [Print Stopping_recording_manually, Writer_release video_filename, Cap_release, DestroyAllWindows]"
    and pre: "tasks_started pre = []"
    using frame_loop_quit [OF assms(4-6), of video_filename "1 / fps self"] by blast
  have l3: "frame_loop env video_filename end_time (1 / fps self) w3 = Some (Stopped, w1)"
    using frame_loop_after_passes [OF assms(3)] l by simp
  obtain evs where evs: "trace w = trace w3 @ evs" "tasks_started evs = []"
    using frames_pass_extends [OF assms(3)] by blast
  let ?w' = "emit (Print (Video_saved video_filename)) (emit (Writer_release video_filename) w1)"
  have r: "record_segment self env w0 = Some (Inr Returned, ?w')"
    using assms(1) by (simp add: record_segment_def assms(2) l3 after_frames_def Let_def)
  have t': "trace ?w' = trace w @ pre @
       [Print Stopping_recording_manually, Writer_release video_filename, Cap_release,
        DestroyAllWindows, Writer_release video_filename, Print (Video_saved video_filename)]"
    by (simp add: emit_def tr)
  have "trace ?w' = trace w0 @
      ([VideoWriter_open video_filename (fps self), Print (Recording video_filename)] @ evs @ pre @
       [Print Stopping_recording_manually, Writer_release video_filename, Cap_release,
        DestroyAllWindows, Writer_release video_filename, Print (Video_saved video_filename)])"
    unfolding t' by (simp add: evs(1) segment_start_trace [OF assms(2)])
  then have "tasks_started (events_since w0 ?w') = []"
    by (simp add: events_since_append tasks_started_append evs(2) pre)
  then show ?thesis using r t' pre by blast
qed

lemma segments_loop_returned:
  "record_segment self env w0 = Some (Inr Returned, w') \<Longrightarrow>
   segments_loop self env w0 = Some (Inr (), w')"
  by (subst segments_loop.simps) simp

lemma segments_loop_next:
  "record_segment self env w0 = Some (Inr Next_segment, w') \<Longrightarrow>
   segments_loop self env w0 = segments_loop self env w'"
  by (subst segments_loop.simps) simp

lemma record_segment_read_failed:
  assumes "fps self \<noteq> 0"
    and "segment_start self env w0 = (video_filename, end_time, w3)"
    and "frames_pass k env video_filename end_time (1 / fps self) w3 = Some w"
    and "monotonic env (clock_calls w) < end_time"
    and "\<not> fst (cap_read env (read_calls w))"
  shows "\<exists>w'. record_segment self env w0 = Some (Inr Next_segment, w') \<and>
     trace w' = trace w @
       [Print Failed_to_capture_frame, Writer_release video_filename,
        Print (Video_saved video_filename), Thread_start (Process video_filename),
        Print Processing_in_background] \<and>
     tasks_started (events_since w0 w') = [Process video_filename]"
proof -
  let ?w1 = "w\<lparr>clock_calls := Suc (Suc (clock_calls w)), read_calls := Suc (read_calls w),
        trace := trace w @ [Print Failed_to_capture_frame]\<rparr>"
  have l: "frame_loop env video_filename end_time (1 / fps self) w = Some (Broke, ?w1)"
    using frame_loop_read_failed [OF assms(4,5)] .
  have l3: "frame_loop env video_filename end_time (1 / fps self) w3 = Some (Broke, ?w1)"
    using frame_loop_after_passes [OF assms(3)] l by simp
  obtain evs where evs: "trace w = trace w3 @ evs" "tasks_started evs = []"
    using frames_pass_extends [OF assms(3)] by blast
  let ?w' = "emit (Print Processing_in_background) (process_video self video_filename
      (emit (Print (Video_saved video_filename)) (emit (Writer_release video_filename) ?w1)))"
  have r: "record_segment self env w0 = Some (Inr Next_segment, ?w')"
    using assms(1) by (simp add: record_segment_def assms(2) l3 after_frames_def Let_def)
  have t': "trace ?w' = trace w @
       [Print Failed_to_capture_frame, Writer_release video_filename,
        Print (Video_saved video_filename), Thread_start (Process video_filename),
        Print Processing_in_background]"
    by (simp add: emit_def process_video_def)
  have "trace ?w' = trace w0 @
      ([VideoWriter_open video_filename (fps self), Print (Recording video_filename)] @ evs @
       [Print Failed_to_capture_frame, Writer_release video_filename,
        Print (Video_saved video_filename), Thread_start (Process video_filename),
        Print Processing_in_background])"
    unfolding t' by (simp add: evs(1) segment_start_trace [OF assms(2)])
  then have "tasks_started (events_since w0 ?w') = [Process video_filename]"
    by (simp add: events_since_append tasks_started_append evs(2))
  then show ?thesis using r t' by blast
qed

lemma segments_loop_dead_camera:
  assumes fps: "fps self \<noteq> 0"
    and dead: "\<And>n. \<not> fst (cap_read env n)"
    and clock: "\<And>n. monotonic env (Suc n) < monotonic env n + segment_duration self"
  shows "segments_loop self env w = None"
proof (cases "segments_loop self env w")
  case None
  then show ?thesis .
next
  case (Some r)
  have "\<not> (fps self \<noteq> 0 \<and> (\<forall>n. \<not> fst (cap_read env n)) \<and>
      (\<forall>n. monotonic env (Suc n) < monotonic env n + segment_duration self))"
  proof (rule segments_loop.raw_induct [where P = "\<lambda>self env w r.
      \<not> (fps self \<noteq> 0 \<and> (\<forall>n. \<not> fst (cap_read env n)) \<and>
        (\<forall>n. monotonic env (Suc n) < monotonic env n + segment_duration self))", OF _ Some])
    fix loop self env w r
    assume IH: "\<And>self env w r. loop self env w = Some r \<Longrightarrow>
        \<not> (fps self \<noteq> 0 \<and> (\<forall>n. \<not> fst (cap_read env n)) \<and>
          (\<forall>n. monotonic env (Suc n) < monotonic env n + segment_duration self))"
      and body: "(case record_segment self env w of
          None \<Rightarrow> None
        | Some (Inl e, w1) \<Rightarrow> Some (Inl e, w1)
        | Some (Inr Next_segment, w1) \<Rightarrow> loop self env w1
        | Some (Inr Returned, w1) \<Rightarrow> Some (Inr (), w1)) = Some r"
    show "\<not> (fps self \<noteq> 0 \<and> (\<forall>n. \<not> fst (cap_read env n)) \<and>
        (\<forall>n. monotonic env (Suc n) < monotonic env n + segment_duration self))"
    proof
      assume a: "fps self \<noteq> 0 \<and> (\<forall>n. \<not> fst (cap_read env n)) \<and>
        (\<forall>n. monotonic env (Suc n) < monotonic env n + segment_duration self)"
      obtain fn e w3 where s: "segment_start self env w = (fn, e, w3)"
        by (cases "segment_start self env w")
      have e: "e = monotonic env (clock_calls w) + segment_duration self"
        and c3: "clock_calls w3 = Suc (clock_calls w)"
        using s
        by (auto simp: segment_start_def time_localtime_def time_monotonic_def open_writer_def
            emit_def Let_def)
      have lt: "monotonic env (clock_calls w3) < e" using a e c3 by simp
      have nr: "\<not> fst (cap_read env (read_calls w3))" using a by simp
      have p: "frames_pass 0 env fn e (1 / fps self) w3 = Some w3" by simp
      obtain w' where "record_segment self env w = Some (Inr Next_segment, w')"
        using record_segment_read_failed [OF _ s p lt nr] a by blast
      then have "loop self env w' = Some r" using body by simp
      then show False using IH a by blast
    qed
  qed
  then show ?thesis using assms by blast
qed

subsection \<open>The example runs\<close>

lemma operator_quits_start:
  "segment_start example_recorder operator_quits initial_world = (example_file, 300, started_world)"
  by (simp add: segment_start_def time_localtime_def time_monotonic_def open_writer_def emit_def
      Let_def initial_world_def operator_quits_def example_recorder_def started_world_def
      example_file_def)

lemma dead_camera_start:
  "segment_start example_recorder dead_camera initial_world = (example_file, 300, started_world)"
  by (simp add: segment_start_def time_localtime_def time_monotonic_def open_writer_def emit_def
      Let_def initial_world_def dead_camera_def example_recorder_def started_world_def
      example_file_def)

lemma operator_quits_first_frame:
  "frames_pass (Suc 0) operator_quits example_file 300 (1 / fps example_recorder) started_world =
     Some one_frame_world"
  by (simp add: frame_body_def time_monotonic_def read_frame_def wait_key_def emit_def Let_def
      operator_quits_def example_recorder_def started_world_def one_frame_world_def)

lemma operator_quits_second_frame:
  "frame_loop operator_quits example_file 300 (1 / fps example_recorder) started_world =
     Some (Stopped, stopped_world)"
proof -
  have "frame_loop operator_quits example_file 300 (1 / fps example_recorder) one_frame_world =
     Some (Stopped, stopped_world)"
    by (subst frame_loop.simps)
      (simp add: frame_body_def time_monotonic_def read_frame_def wait_key_def emit_def Let_def
        close_camera_def operator_quits_def example_recorder_def one_frame_world_def
        stopped_world_def)
  then show ?thesis using frame_loop_after_passes [OF operator_quits_first_frame] by simp
qed

subsection \<open>Manual stop, read failure, pacing\<close>

text \<open>
  Claim C5. When, in any pass of the frame loop of a segment (after \<open>k\<close> full passes), the
  frame is read and the key read is \<open>q\<close>, the writer is released, the camera is released,
  the \<^verbatim>\<open>finally\<close> clause runs, and the capture loop returns; no thread is started in that
  pass of the outer loop, so the segment is not handed to \<^verbatim>\<open>process_video\<close>.
\<close>

theorem manual_stop:
  assumes "fps self \<noteq> 0"
    and "segment_start self env w0 = (video_filename, end_time, w3)"
    and "frames_pass k env video_filename end_time (1 / fps self) w3 = Some w"
    and "monotonic env (clock_calls w) < end_time"
    and "fst (cap_read env (read_calls w))"
    and "waitKey env (key_calls w) AND 255 = 113"
  shows "\<exists>w' pre. segments_loop self env w0 = Some (Inr (), w') \<and>
     trace w' = trace w @ pre @
       [Print Stopping_recording_manually, Writer_release video_filename, Cap_release,
        DestroyAllWindows, Writer_release video_filename, Print (Video_saved video_filename)] \<and>
     tasks_started pre = [] \<and>
     tasks_started (events_since w0 w') = []"
proof -
  obtain w' pre where r: "record_segment self env w0 = Some (Inr Returned, w')"
    and rest: "trace w' = trace w @ pre @
       [Print Stopping_recording_manually, Writer_release video_filename, Cap_release,
        DestroyAllWindows, Writer_release video_filename, Print (Video_saved video_filename)]"
      "tasks_started pre = []" "tasks_started (events_since w0 w') = []"
    using record_segment_quit [OF assms] by blast
  show ?thesis using segments_loop_returned [OF r] rest by blast
qed

theorem manual_stop_witness:
  "fps example_recorder \<noteq> 0 \<and>
   segment_start example_recorder operator_quits initial_world = (example_file, 300, started_world) \<and>
   frames_pass (Suc 0) operator_quits example_file 300 (1 / fps example_recorder) started_world =
     Some one_frame_world \<and>
   monotonic operator_quits (clock_calls one_frame_world) < 300 \<and>
   fst (cap_read operator_quits (read_calls one_frame_world)) \<and>
   waitKey operator_quits (key_calls one_frame_world) AND 255 = 113 \<and>
   map_option fst (segments_loop example_recorder operator_quits initial_world) = Some (Inr ()) \<and>
   tasks_started (events_since initial_world
     (snd (the (segments_loop example_recorder operator_quits initial_world)))) = []"
proof -
  have f: "fps example_recorder \<noteq> 0" by (simp add: example_recorder_def)
  have c: "monotonic operator_quits (clock_calls one_frame_world) < 300"
    by (simp add: operator_quits_def one_frame_world_def)
  have r: "fst (cap_read operator_quits (read_calls one_frame_world))"
    by (simp add: operator_quits_def)
  have q: "waitKey operator_quits (key_calls one_frame_world) AND 255 = 113"
    by (simp add: operator_quits_def one_frame_world_def)
  obtain w' where "segments_loop example_recorder operator_quits initial_world = Some (Inr (), w')"
    "tasks_started (events_since initial_world w') = []"
    using manual_stop [OF f operator_quits_start operator_quits_first_frame c r q] by blast
  then show ?thesis
    using f c r q operator_quits_start operator_quits_first_frame by simp
qed

text \<open>
  Claim C2, as amended. When, in any pass of the frame loop of a segment, the frame read
  reports not-ok, the failure is logged and the frame loop of that segment is left; the
  writer is released, the segment is handed to \<^verbatim>\<open>process_video\<close>, and the capture loop goes
  on with the next segment: it does not return.
\<close>

theorem read_failure_ends_segment_only:
  assumes "fps self \<noteq> 0"
    and "segment_start self env w0 = (video_filename, end_time, w3)"
    and "frames_pass k env video_filename end_time (1 / fps self) w3 = Some w"
    and "monotonic env (clock_calls w) < end_time"
    and "\<not> fst (cap_read env (read_calls w))"
  shows "\<exists>w'. record_segment self env w0 = Some (Inr Next_segment, w') \<and>
     trace w' = trace w @
       [Print Failed_to_capture_frame, Writer_release video_filename,
        Print (Video_saved video_filename), Thread_start (Process video_filename),
        Print Processing_in_background] \<and>
     tasks_started (events_since w0 w') = [Process video_filename] \<and>
     segments_loop self env w0 = segments_loop self env w'"
proof -
  obtain w' where r: "record_segment self env w0 = Some (Inr Next_segment, w')"
    and rest: "trace w' = trace w @
       [Print Failed_to_capture_frame, Writer_release video_filename,
        Print (Video_saved video_filename), Thread_start (Process video_filename),
        Print Processing_in_background]"
      "tasks_started (events_since w0 w') = [Process video_filename]"
    using record_segment_read_failed [OF assms] by blast
  show ?thesis using segments_loop_next [OF r] r rest by blast
qed

theorem read_failure_ends_segment_only_witness:
  "fps example_recorder \<noteq> 0 \<and>
   segment_start example_recorder dead_camera initial_world = (example_file, 300, started_world) \<and>
   frames_pass 0 dead_camera example_file 300 (1 / fps example_recorder) started_world =
     Some started_world \<and>
   monotonic dead_camera (clock_calls started_world) < 300 \<and>
   \<not> fst (cap_read dead_camera (read_calls started_world)) \<and>
   map_option fst (record_segment example_recorder dead_camera initial_world) =
     Some (Inr Next_segment) \<and>
   tasks_started (events_since initial_world
     (snd (the (record_segment example_recorder dead_camera initial_world)))) =
     [Process example_file]"
proof -
  have f: "fps example_recorder \<noteq> 0" by (simp add: example_recorder_def)
  have p: "frames_pass 0 dead_camera example_file 300 (1 / fps example_recorder) started_world =
      Some started_world"
    by simp
  have c: "monotonic dead_camera (clock_calls started_world) < 300"
    by (simp add: dead_camera_def started_world_def)
  have r: "\<not> fst (cap_read dead_camera (read_calls started_world))"
    by (simp add: dead_camera_def)
  obtain w' where
    "record_segment example_recorder dead_camera initial_world = Some (Inr Next_segment, w')"
    "tasks_started (events_since initial_world w') = [Process example_file]"
    using read_failure_ends_segment_only [OF f dead_camera_start p c r] by blast
  then show ?thesis using f p c r dead_camera_start by simp
qed

text \<open>
  Claim C2 as stated fails: with a camera whose first read fails, the pass of the outer loop
  ends in \<^verbatim>\<open>process_video\<close> for the segment and asks for the next segment, and with a camera
  whose reads all fail the capture loop never returns.
\<close>

theorem read_failure_is_not_fatal:
  "\<not> fst (cap_read dead_camera (read_calls started_world)) \<and>
   map_option fst (record_segment example_recorder dead_camera initial_world) =
     Some (Inr Next_segment) \<and>
   tasks_started (events_since initial_world
     (snd (the (record_segment example_recorder dead_camera initial_world)))) =
     [Process example_file] \<and>
   record_continuous example_recorder dead_camera initial_world = None"
proof -
  have f: "fps example_recorder \<noteq> 0" by (simp add: example_recorder_def)
  have p: "frames_pass 0 dead_camera example_file 300 (1 / fps example_recorder) started_world =
      Some started_world"
    by simp
  have c: "monotonic dead_camera (clock_calls started_world) < 300"
    by (simp add: dead_camera_def started_world_def)
  have r: "\<not> fst (cap_read dead_camera (read_calls started_world))"
    by (simp add: dead_camera_def)
  obtain w' where w':
    "record_segment example_recorder dead_camera initial_world = Some (Inr Next_segment, w')"
    "tasks_started (events_since initial_world w') = [Process example_file]"
    using record_segment_read_failed [OF f dead_camera_start p c r] by blast
  have n: "record_continuous example_recorder dead_camera initial_world = None"
    unfolding record_continuous_def
    by (rule segments_loop_dead_camera) (simp_all add: example_recorder_def dead_camera_def)
  show ?thesis using w' n r by simp
qed

text \<open>
  Claim C6. In one pass of the frame loop, with the frame interval \<open>1 / fps\<close>, a frame is
  written exactly when the read is ok, and the loop sleeps exactly when a frame was written
  and the interval minus the time measured around the read and the write is positive, for
  that remainder. So every duration slept is positive: in one pass, in any number of full
  passes, and in a frame loop that has ended.
\<close>

theorem pacing_sleep:
  "sleeps (events_since w (snd (frame_body env out (1 / fps self) w))) =
     (let elapsed = monotonic env (Suc (clock_calls w)) - monotonic env (clock_calls w);
          remaining_time = 1 / fps self - elapsed
      in if fst (cap_read env (read_calls w)) \<and> remaining_time > 0 then [remaining_time] else []) \<and>
   frames_written (events_since w (snd (frame_body env out (1 / fps self) w))) =
     (if fst (cap_read env (read_calls w)) then [snd (cap_read env (read_calls w))] else []) \<and>
   list_all (\<lambda>d. 0 < d) (sleeps (events_since w (snd (frame_body env out (1 / fps self) w)))) \<and>
   (frames_pass k env out end_time (1 / fps self) w = Some wk \<longrightarrow>
      list_all (\<lambda>d. 0 < d) (sleeps (events_since w wk)) \<and>
      length (sleeps (events_since w wk)) \<le> length (frames_written (events_since w wk))) \<and>
   (frame_loop env out end_time (1 / fps self) w = Some (ex, w') \<longrightarrow>
      list_all (\<lambda>d. 0 < d) (sleeps (events_since w w')))"
proof -
  have a: "list_all (\<lambda>d. 0 < d) (sleeps (events_since w (snd (frame_body env out (1 / fps self) w))))"
    using frame_body_extends [of env out "1 / fps self" w] by (auto simp: events_since_append)
  have b: "list_all (\<lambda>d. 0 < d) (sleeps (events_since w wk)) \<and>
      length (sleeps (events_since w wk)) \<le> length (frames_written (events_since w wk))"
    if "frames_pass k env out end_time (1 / fps self) w = Some wk"
    using frames_pass_extends [OF that] by (auto simp: events_since_append)
  have c: "list_all (\<lambda>d. 0 < d) (sleeps (events_since w w'))"
    if "frame_loop env out end_time (1 / fps self) w = Some (ex, w')"
    using frame_loop_extends [OF that] by (auto simp: events_since_append)
  show ?thesis
    using a b c frame_body_sleeps [of w env out "1 / fps self"]
      frame_body_written [of w env out "1 / fps self"]
    by blast
qed

theorem pacing_sleep_witness:
  "frames_pass (Suc 0) operator_quits example_file 300 (1 / fps example_recorder) started_world =
     Some one_frame_world \<and>
   frame_loop operator_quits example_file 300 (1 / fps example_recorder) started_world =
     Some (Stopped, stopped_world) \<and>
   sleeps (events_since started_world
     (snd (frame_body operator_quits example_file (1 / fps example_recorder) started_world))) =
     [1 / 25] \<and>
   sleeps (events_since started_world one_frame_world) = [1 / 25] \<and>
   sleeps (events_since started_world stopped_world) = [1 / 25, 1 / 25] \<and>
   list_all (\<lambda>d. 0 < d) (sleeps (events_since started_world stopped_world))"
proof -
  note t = pacing_sleep [of started_world operator_quits example_file example_recorder "Suc 0" 300
      one_frame_world Stopped stopped_world]
  have a: "sleeps (events_since started_world
     (snd (frame_body operator_quits example_file (1 / fps example_recorder) started_world))) =
     [1 / 25]"
    using t [THEN conjunct1]
    by (simp add: operator_quits_def example_recorder_def started_world_def Let_def)
  have b: "sleeps (events_since started_world one_frame_world) = [1 / 25]"
    by (simp add: events_since_def started_world_def one_frame_world_def)
  have c: "sleeps (events_since started_world stopped_world) = [1 / 25, 1 / 25]"
    by (simp add: events_since_def started_world_def stopped_world_def)
  have d: "list_all (\<lambda>d. 0 < d) (sleeps (events_since started_world stopped_world))"
    using t operator_quits_second_frame by blast
  show ?thesis
    using a b c d operator_quits_first_frame operator_quits_second_frame by blast
qed

end
